theory Spec2Isabelle
  imports Complex_Main
begin

section \<open>Values, tables and errors\<close>

text \<open>
  A pandas cell is a missing value (\<open>None\<close>/\<open>NaN\<close>), a number or a text. Numbers are
  rationals: the claims below are about which cells are missing and which rows exist, not
  about rounding. A table is a \<open>DataFrame\<close> with a default index: its column labels in
  order, and its rows in order, a row giving the cell of every column label.
\<close>

datatype cell = Null | Num rat | Str string

type_synonym row = "string \<Rightarrow> cell"

record table =
  columns :: "string list"
  rows :: "row list"

text \<open>
  Python exceptions that the modelled code raises, catches or lets through. \<open>KeyError\<close>
  carries the labels that were not found; the others carry their message.
\<close>

datatype exn =
    OSError string
  | TypeError string
  | ImportError string
  | KeyError "string list"
  | ValueError string
  | MergeError string
  | OtherError string

type_synonym 'a result = "exn + 'a"

section \<open>Python strings\<close>

text \<open>
  A Python \<open>str\<close> is modelled as a \<open>string\<close> whose characters are the code points
  U+0000 to U+00FF (ASCII and the Latin-1 supplement, which holds the precomposed accented
  letters of the country names). \<open>str.isalnum\<close>, \<open>str.lower\<close> and \<open>str.isspace\<close> are
  the Unicode tables on that range, where \<open>str.lower\<close> maps character by character.
  Strings with other code points are outside the model, and no statement below is about
  them: there \<open>str.lower\<close> depends on the context (a capital sigma) and can give two code
  points (U+0130), and the combining marks of decomposed accents are not alphanumeric.
\<close>

definition py_isalnum :: "char \<Rightarrow> bool" where
  "py_isalnum c = (let n = (of_char c :: nat) in
     (48 \<le> n \<and> n \<le> 57) \<or> (65 \<le> n \<and> n \<le> 90) \<or> (97 \<le> n \<and> n \<le> 122) \<or>
     n = 170 \<or> n = 178 \<or> n = 179 \<or> n = 181 \<or> n = 185 \<or> n = 186 \<or>
     (188 \<le> n \<and> n \<le> 190) \<or> (192 \<le> n \<and> n \<le> 214) \<or>
     (216 \<le> n \<and> n \<le> 246) \<or> (248 \<le> n \<and> n \<le> 255))"

definition is_upper :: "char \<Rightarrow> bool" where
  "is_upper c = (let n = (of_char c :: nat) in
     (65 \<le> n \<and> n \<le> 90) \<or> (192 \<le> n \<and> n \<le> 214) \<or> (216 \<le> n \<and> n \<le> 222))"

definition lower_char :: "char \<Rightarrow> char" where
  "lower_char c = (if is_upper c then char_of ((of_char c :: nat) + 32) else c)"

definition py_lower :: "string \<Rightarrow> string" where
  "py_lower s = map lower_char s"

definition py_isspace :: "char \<Rightarrow> bool" where
  "py_isspace c = (let n = (of_char c :: nat) in
     (9 \<le> n \<and> n \<le> 13) \<or> (28 \<le> n \<and> n \<le> 32) \<or> n = 133 \<or> n = 160)"

definition py_strip :: "string \<Rightarrow> string" where
  "py_strip s = rev (dropWhile py_isspace (rev (dropWhile py_isspace s)))"

fun starts_with :: "string \<Rightarrow> string \<Rightarrow> bool" where
  "starts_with s [] = True"
| "starts_with [] (p # ps) = False"
| "starts_with (c # cs) (p # ps) = (c = p \<and> starts_with cs ps)"

text \<open>\<open>py_in needle s\<close> is Python's \<open>needle in s\<close> on strings.\<close>

fun py_in :: "string \<Rightarrow> string \<Rightarrow> bool" where
  "py_in needle [] = (needle = [])"
| "py_in needle (c # cs) = (starts_with (c # cs) needle \<or> py_in needle cs)"

definition py_endswith :: "string \<Rightarrow> string \<Rightarrow> bool" where
  "py_endswith s suffix = starts_with (rev s) (rev suffix)"

text \<open>\<open>str(n)\<close> of an integer.\<close>

fun str_nat :: "nat \<Rightarrow> string" where
  "str_nat n = (if n < 10 then [char_of (48 + n)]
     else str_nat (n div 10) @ [char_of (48 + n mod 10)])"

declare str_nat.simps [simp del]

definition str_int :: "int \<Rightarrow> string" where
  "str_int i = (if i < 0 then CHR ''-'' # str_nat (nat (- i)) else str_nat (nat i))"

section \<open>Code Resolver (utils.py)\<close>

text \<open>
  The elements of the series given to \<open>to_iso3\<close>: a text, \<open>None\<close>, \<open>NaN\<close> or an integer.
  \<open>py_str\<close> is \<open>str(x)\<close>, which \<open>Series.astype(str)\<close> applies to every element.
\<close>

datatype pyval = PyNone | PyNaN | PyInt int | PyStr string

fun py_str :: "pyval \<Rightarrow> string" where
  "py_str (PyStr s) = s"
| "py_str PyNone = ''None''"
| "py_str PyNaN = ''nan''"
| "py_str (PyInt i) = str_int i"

definition normalize_key :: "string \<Rightarrow> string" where
  "normalize_key v = filter py_isalnum (py_lower v)"

text \<open>
  The bundled file \<open>_country_iso_fallback.json\<close> is not part of the sources: its content
  \<open>raw\<close> (the name/code pairs of \<open>raw.items()\<close>, in order) is a parameter. The dict
  comprehension keeps, for each normalized key, the code of the last pair that has it.
\<close>

definition fallback_iso_map :: "(string \<times> string) list \<Rightarrow> string \<Rightarrow> string option" where
  "fallback_iso_map raw = map_of (rev (map (\<lambda>(name, code). (normalize_key name, code)) raw))"

fun fallback_lookup :: "(string \<times> string) list \<Rightarrow> pyval \<Rightarrow> string option" where
  "fallback_lookup raw (PyStr name) =
     (let key = normalize_key name in if key = [] then None else fallback_iso_map raw key)"
| "fallback_lookup raw PyNone = None"
| "fallback_lookup raw PyNaN = None"
| "fallback_lookup raw (PyInt i) = None"

text \<open>
  The optional primary converter \<open>_cc\<close> (the package \<open>country_converter\<close>) is a parameter:
  \<open>None\<close> when the package is not installed, otherwise what
  \<open>_cc.convert(names=name, to="ISO3", not_found=None)\<close> gives for a name: a text, a list,
  \<open>None\<close>, or an exception.
\<close>

datatype conv_result = ConvStr string | ConvList "string option list" | ConvNone | ConvRaise

type_synonym converter = "string \<Rightarrow> conv_result"

definition primary_code :: "converter \<Rightarrow> string \<Rightarrow> string option" where
  "primary_code cc name =
     (let code = (case cc name of
                    ConvRaise \<Rightarrow> None
                  | ConvNone \<Rightarrow> None
                  | ConvStr s \<Rightarrow> Some s
                  | ConvList [] \<Rightarrow> None
                  | ConvList (c # cs) \<Rightarrow> c)
      in case code of
           None \<Rightarrow> None
         | Some s \<Rightarrow>
             if py_strip (py_lower s) = ''not found'' \<or> py_strip (py_lower s) = ''notfound''
                \<or> py_strip (py_lower s) = []
             then None else Some s)"

text \<open>The inner function \<open>_map\<close> of \<open>to_iso3\<close>; the result \<open>None\<close> is \<open>np.nan\<close>.\<close>

definition to_iso3_map ::
  "converter option \<Rightarrow> (string \<times> string) list \<Rightarrow> pyval \<Rightarrow> string option" where
  "to_iso3_map cc raw x =
     (let name = (case x of PyStr s \<Rightarrow> py_strip s | _ \<Rightarrow> [])
      in if name = [] then None
         else
           let code = (case cc of None \<Rightarrow> None | Some conv \<Rightarrow> primary_code conv name);
               code' = (case code of
                          None \<Rightarrow> fallback_lookup raw (PyStr name)
                        | Some s \<Rightarrow> if py_strip s = [] then fallback_lookup raw (PyStr name)
                                    else Some s)
           in case code' of None \<Rightarrow> None | Some s \<Rightarrow> if s = [] then None else Some s)"

definition to_iso3 ::
  "converter option \<Rightarrow> (string \<times> string) list \<Rightarrow> pyval list \<Rightarrow> string option list" where
  "to_iso3 cc raw country_series = map (\<lambda>x. to_iso3_map cc raw (PyStr (py_str x))) country_series"

section \<open>Resilient Reader (utils.py)\<close>

text \<open>
  \<open>read_parquet_safe\<close> calls up to five readers of the file. What each of them does on
  the file at \<open>path\<close> is the environment of the call: a table or an exception. The two
  pandas readers take the requested columns. \<open>import_pyarrow\<close> is the exception of
  \<open>import pyarrow\<close>, if any.
\<close>

record reader_env =
  read_parquet :: "string list option \<Rightarrow> table result"
  import_pyarrow :: "exn option"
  read_table_legacy :: "table result"
  read_table_plain :: "table result"
  parquet_file_read :: "table result"
  read_parquet_fastparquet :: "string list option \<Rightarrow> table result"

datatype strategy = Primary | LegacyDataset | PlainDataset | SingleFile | FastParquet

definition signature_text :: string where
  "signature_text = ''Repetition level histogram size mismatch''"

text \<open>
  The test of the three handlers \<open>except OSError as e\<close> followed by
  \<open>if "Repetition level histogram size mismatch" not in str(e): raise\<close>: an exception
  passes it when it is an \<open>OSError\<close> whose message holds the text.
\<close>

fun is_defect :: "exn \<Rightarrow> bool" where
  "is_defect (OSError message) = py_in signature_text message"
| "is_defect (TypeError m) = False"
| "is_defect (ImportError m) = False"
| "is_defect (KeyError ks) = False"
| "is_defect (ValueError m) = False"
| "is_defect (MergeError m) = False"
| "is_defect (OtherError m) = False"

fun is_TypeError :: "exn \<Rightarrow> bool" where
  "is_TypeError (TypeError m) = True"
| "is_TypeError (OSError m) = False"
| "is_TypeError (ImportError m) = False"
| "is_TypeError (KeyError ks) = False"
| "is_TypeError (ValueError m) = False"
| "is_TypeError (MergeError m) = False"
| "is_TypeError (OtherError m) = False"

fun is_ImportError :: "exn \<Rightarrow> bool" where
  "is_ImportError (ImportError m) = True"
| "is_ImportError (OSError m) = False"
| "is_ImportError (TypeError m) = False"
| "is_ImportError (KeyError ks) = False"
| "is_ImportError (ValueError m) = False"
| "is_ImportError (MergeError m) = False"
| "is_ImportError (OtherError m) = False"

text \<open>\<open>frame[cols]\<close> for a list of labels that are all present.\<close>

definition select_columns :: "table \<Rightarrow> string list \<Rightarrow> table" where
  "select_columns frame cols =
     \<lparr>columns = cols, rows = map (\<lambda>r c. if c \<in> set cols then r c else Null) (rows frame)\<rparr>"

text \<open>The end of \<open>read_parquet_safe\<close>, after a pyarrow reader has given a table.\<close>

definition project_requested :: "string list option \<Rightarrow> table \<Rightarrow> table result" where
  "project_requested cols frame =
     (case cols of
        None \<Rightarrow> Inr frame
      | Some cs \<Rightarrow>
          if cs = [] then Inr frame
          else let missing = filter (\<lambda>c. c \<notin> set (columns frame)) cs
               in if missing \<noteq> [] then Inl (KeyError missing)
                  else Inr (select_columns frame cs))"

text \<open>
  The result pairs the readers that were called, in order, with what the call returns
  or raises.
\<close>

definition read_parquet_safe ::
  "reader_env \<Rightarrow> string list option \<Rightarrow> strategy list \<times> table result" where
  "read_parquet_safe env cols =
     (case read_parquet env cols of
        Inr frame \<Rightarrow> ([Primary], Inr frame)
      | Inl err \<Rightarrow>
          if \<not> is_defect err then ([Primary], Inl err)
          else (case import_pyarrow env of
                  Some exc \<Rightarrow> ([Primary], Inl (if is_ImportError exc then err else exc))
                | None \<Rightarrow>
                    (case read_table_legacy env of
                       Inr t \<Rightarrow> ([Primary, LegacyDataset], project_requested cols t)
                     | Inl err2 \<Rightarrow>
                         if is_TypeError err2 then
                           (case read_table_plain env of
                              Inr t \<Rightarrow>
                                ([Primary, LegacyDataset, PlainDataset], project_requested cols t)
                            | Inl e \<Rightarrow> ([Primary, LegacyDataset, PlainDataset], Inl e))
                         else if \<not> is_defect err2 then ([Primary, LegacyDataset], Inl err2)
                         else
                           (case parquet_file_read env of
                              Inr t \<Rightarrow>
                                ([Primary, LegacyDataset, SingleFile], project_requested cols t)
                            | Inl err3 \<Rightarrow>
                                if \<not> is_defect err3
                                then ([Primary, LegacyDataset, SingleFile], Inl err3)
                                else
                                  (case read_parquet_fastparquet env cols of
                                     Inr frame \<Rightarrow>
                                       ([Primary, LegacyDataset, SingleFile, FastParquet],
                                        Inr frame)
                                   | Inl e \<Rightarrow>
                                       ([Primary, LegacyDataset, SingleFile, FastParquet],
                                        Inl err3))))))"

section \<open>Operations of pandas\<close>

text \<open>
  The operations of pandas that \<open>data.py\<close> calls, after the documentation of pandas 2.
  Cells are compared as pandas compares keys in \<open>merge\<close>, \<open>groupby\<close> and
  \<open>drop_duplicates\<close>: two missing values are equal. pandas returns the rows of
  \<open>pivot_table\<close> and of an outer \<open>merge\<close> sorted by key; the model lists them unsorted, and no statement below depends on the order of those
  rows.
\<close>

fun is_text :: "cell \<Rightarrow> bool" where
  "is_text (Str s) = True"
| "is_text (Num q) = False"
| "is_text Null = False"

fun numbers :: "cell list \<Rightarrow> rat list" where
  "numbers [] = []"
| "numbers (Num q # cs) = q # numbers cs"
| "numbers (Null # cs) = numbers cs"
| "numbers (Str s # cs) = numbers cs"

text \<open>The mean of pandas with \<open>skipna=True\<close>, its default: missing values are left out.\<close>

definition mean_skipna :: "cell list \<Rightarrow> cell" where
  "mean_skipna cs =
     (let xs = numbers cs in if xs = [] then Null else Num (sum_list xs / of_nat (length xs)))"

text \<open>Subtraction of two numeric cells: missing when either is missing.\<close>

fun cell_sub :: "cell \<Rightarrow> cell \<Rightarrow> cell" where
  "cell_sub (Num a) (Num b) = Num (a - b)"
| "cell_sub (Num a) Null = Null"
| "cell_sub (Num a) (Str s) = Null"
| "cell_sub Null b = Null"
| "cell_sub (Str s) b = Null"

definition row_key :: "string list \<Rightarrow> row \<Rightarrow> cell list" where
  "row_key on r = map r on"

definition row_of :: "(string \<times> cell) list \<Rightarrow> row" where
  "row_of al = (\<lambda>c. case map_of al c of Some v \<Rightarrow> v | None \<Rightarrow> Null)"

definition missing_labels :: "table \<Rightarrow> string list \<Rightarrow> string list" where
  "missing_labels df cs = filter (\<lambda>c. c \<notin> set (columns df)) cs"

text \<open>\<open>df[cs]\<close> for a list of labels.\<close>

definition getitem_columns :: "table \<Rightarrow> string list \<Rightarrow> table result" where
  "getitem_columns df cs =
     (if missing_labels df cs \<noteq> [] then Inl (KeyError (missing_labels df cs))
      else Inr (select_columns df cs))"

text \<open>\<open>df[a] - df[b]\<close>: a text in either column is a \<open>TypeError\<close>.\<close>

definition series_sub :: "table \<Rightarrow> string \<Rightarrow> string \<Rightarrow> cell list result" where
  "series_sub df a b =
     (if list_ex (\<lambda>r. is_text (r a) \<or> is_text (r b)) (rows df)
      then Inl (TypeError ''unsupported operand type(s) for -'')
      else Inr (map (\<lambda>r. cell_sub (r a) (r b)) (rows df)))"

text \<open>\<open>df.dropna(subset=cs)\<close> and \<open>df.drop_duplicates(subset=cs)\<close> (the first row of each
  group of duplicates is kept).\<close>

definition dropna :: "string list \<Rightarrow> table \<Rightarrow> table" where
  "dropna cs df = df\<lparr>rows := filter (\<lambda>r. Null \<notin> set (row_key cs r)) (rows df)\<rparr>"

fun first_occurrences :: "string list \<Rightarrow> cell list list \<Rightarrow> row list \<Rightarrow> row list" where
  "first_occurrences cs seen [] = []"
| "first_occurrences cs seen (r # rs) =
     (if row_key cs r \<in> set seen then first_occurrences cs seen rs
      else r # first_occurrences cs (row_key cs r # seen) rs)"

definition drop_duplicates :: "string list \<Rightarrow> table \<Rightarrow> table" where
  "drop_duplicates cs df = df\<lparr>rows := first_occurrences cs [] (rows df)\<rparr>"

subsection \<open>merge\<close>

text \<open>
  \<open>pd.merge(left, right, on=on, how=how)\<close> for \<open>how\<close> in \<open>left\<close> and \<open>outer\<close>. The
  result has the columns of \<open>left\<close>, then the columns of \<open>right\<close> that are not keys; a
  label that is in both and is not a key gets the suffix \<open>_x\<close> on the left and \<open>_y\<close> on
  the right. Every left row is joined with each right row of the same key, in order, or
  with missing values when there is none; an outer merge adds the right rows whose key no
  left row has. \<open>merge\<close> raises when there is no key to merge on.
\<close>

datatype how = HowLeft | HowOuter

definition left_label :: "string list \<Rightarrow> table \<Rightarrow> string \<Rightarrow> string" where
  "left_label on right c = (if c \<notin> set on \<and> c \<in> set (columns right) then c @ ''_x'' else c)"

definition right_label :: "string list \<Rightarrow> table \<Rightarrow> string \<Rightarrow> string" where
  "right_label on left c = (if c \<notin> set on \<and> c \<in> set (columns left) then c @ ''_y'' else c)"

definition right_rest :: "string list \<Rightarrow> table \<Rightarrow> string list" where
  "right_rest on right = filter (\<lambda>c. c \<notin> set on) (columns right)"

definition merged_columns :: "string list \<Rightarrow> table \<Rightarrow> table \<Rightarrow> string list" where
  "merged_columns on left right =
     map (left_label on right) (columns left) @ map (right_label on left) (right_rest on right)"

definition matches :: "string list \<Rightarrow> table \<Rightarrow> row \<Rightarrow> row list" where
  "matches on right l = filter (\<lambda>r. row_key on r = row_key on l) (rows right)"

definition join_row :: "string list \<Rightarrow> table \<Rightarrow> table \<Rightarrow> row \<Rightarrow> row option \<Rightarrow> row" where
  "join_row on left right l ro =
     row_of (map (\<lambda>c. (left_label on right c, l c)) (columns left)
           @ map (\<lambda>c. (right_label on left c, case ro of None \<Rightarrow> Null | Some r \<Rightarrow> r c))
               (right_rest on right))"

definition right_only_row :: "string list \<Rightarrow> table \<Rightarrow> table \<Rightarrow> row \<Rightarrow> row" where
  "right_only_row on left right r =
     row_of (map (\<lambda>c. (left_label on right c, if c \<in> set on then r c else Null)) (columns left)
           @ map (\<lambda>c. (right_label on left c, r c)) (right_rest on right))"

definition left_rows :: "string list \<Rightarrow> table \<Rightarrow> table \<Rightarrow> row list" where
  "left_rows on left right =
     concat (map (\<lambda>l. if matches on right l = [] then [join_row on left right l None]
                       else map (\<lambda>r. join_row on left right l (Some r)) (matches on right l))
                 (rows left))"

definition right_only_rows :: "string list \<Rightarrow> table \<Rightarrow> table \<Rightarrow> row list" where
  "right_only_rows on left right =
     map (right_only_row on left right)
         (filter (\<lambda>r. row_key on r \<notin> set (map (row_key on) (rows left))) (rows right))"

definition pd_merge :: "how \<Rightarrow> string list \<Rightarrow> table \<Rightarrow> table \<Rightarrow> table result" where
  "pd_merge h on left right =
     (if on = [] then Inl (OtherError ''no key to merge on'')
      else if filter (\<lambda>k. k \<notin> set (columns left) \<or> k \<notin> set (columns right)) on \<noteq> []
      then Inl (KeyError
                  (take 1 (filter (\<lambda>k. k \<notin> set (columns left) \<or> k \<notin> set (columns right)) on)))
      else if \<not> distinct (merged_columns on left right)
      then Inl (MergeError ''suffixes cause duplicate columns'')
      else Inr \<lparr>columns = merged_columns on left right,
                rows = left_rows on left right
                     @ (case h of HowLeft \<Rightarrow> [] | HowOuter \<Rightarrow> right_only_rows on left right)\<rparr>)"

section \<open>Ingest, Cleaner, Gap Reconciler and External Joiner (data.py)\<close>

subsection \<open>ingest_csv: the derived total\<close>

text \<open>
  The step of \<open>ingest_csv\<close> on the renamed frame:
  \<open>df["prevalence_total"] = df[["prevalence_male", "prevalence_female"]].mean(axis=1)\<close>
  when the total is absent and both halves are present. The mean of a row over a column
  that holds text raises a \<open>TypeError\<close>. (\<open>ColumnConfig\<close> and \<open>CANONICAL_COLUMNS\<close>,
  which the steps before and after use, are in \<open>config.py\<close>, not part of the sources.)
\<close>

definition derive_total :: "table \<Rightarrow> table result" where
  "derive_total df =
     (if ''prevalence_total'' \<notin> set (columns df)
         \<and> ''prevalence_male'' \<in> set (columns df) \<and> ''prevalence_female'' \<in> set (columns df)
      then
        if list_ex (\<lambda>r. is_text (r ''prevalence_male'') \<or> is_text (r ''prevalence_female''))
             (rows df)
        then Inl (TypeError ''unsupported operand type(s) for +'')
        else Inr \<lparr>columns = columns df @ [''prevalence_total''],
                  rows = map (\<lambda>r. r(''prevalence_total'' :=
                                 mean_skipna [r ''prevalence_male'', r ''prevalence_female'']))
                             (rows df)\<rparr>
      else Inr df)"

subsection \<open>clean\<close>

definition clean :: "table \<Rightarrow> table result" where
  "clean df =
     (if ''country_iso3'' \<notin> set (columns df)
      then Inl (ValueError ''Missing required column country_iso3'')
      else if ''year'' \<notin> set (columns df)
      then Inl (ValueError ''Missing required column year'')
      else Inr (drop_duplicates (filter (\<lambda>c. c \<noteq> ''sex'') (columns df))
                  (dropna [''country_iso3'', ''year''] df)))"

subsection \<open>join_external\<close>


subsection \<open>gender_gap\<close>

definition keys :: "string list" where
  "keys = [''country'', ''country_iso3'', ''year'']"

definition indicators :: "string list" where
  "indicators = [''prevalence_total'', ''prevalence_depression'', ''prevalence_anxiety'']"

text \<open>
  \<open>df.pivot_table(index=keys, columns="sex", values=name, aggfunc="mean")\<close>. Rows with
  a missing key or a missing sex belong to no group; the value of a group is the mean of
  its values that are not missing; a group whose values are all missing is dropped. The
  result has one row for each key and one column for each sex that a remaining group has.
  A missing key column is a \<open>KeyError\<close>, a text among the values a \<open>TypeError\<close>.
\<close>

record pivot =
  pv_index :: "cell list list"
  pv_labels :: "cell list"
  pv_value :: "cell list \<Rightarrow> cell \<Rightarrow> cell"

definition grouped_rows :: "table \<Rightarrow> row list" where
  "grouped_rows df = filter (\<lambda>r. Null \<notin> set (row_key keys r) \<and> r ''sex'' \<noteq> Null) (rows df)"

definition group_mean :: "table \<Rightarrow> string \<Rightarrow> cell list \<Rightarrow> cell \<Rightarrow> cell" where
  "group_mean df name k s =
     mean_skipna (map (\<lambda>r. r name)
       (filter (\<lambda>r. row_key keys r = k \<and> r ''sex'' = s) (grouped_rows df)))"

definition live_groups :: "table \<Rightarrow> string \<Rightarrow> (cell list \<times> cell) list" where
  "live_groups df name =
     filter (\<lambda>(k, s). group_mean df name k s \<noteq> Null)
       (map (\<lambda>r. (row_key keys r, r ''sex'')) (grouped_rows df))"

definition pivot_table :: "table \<Rightarrow> string \<Rightarrow> pivot result" where
  "pivot_table df name =
     (if missing_labels df keys \<noteq> [] then Inl (KeyError (take 1 (missing_labels df keys)))
      else if list_ex (\<lambda>r. is_text (r name)) (grouped_rows df)
      then Inl (TypeError ''agg function failed'')
      else Inr \<lparr>pv_index = remdups (map fst (live_groups df name)),
                pv_labels = remdups (map snd (live_groups df name)),
                pv_value = group_mean df name\<rparr>)"

text \<open>
  \<open>str(c).lower()\<close> of a column label of the pivot. The text of a number is no name of
  a sex; the label stays the number.
\<close>

fun normalize_label :: "cell \<Rightarrow> cell" where
  "normalize_label (Str s) = Str (py_lower s)"
| "normalize_label (Num q) = Num q"
| "normalize_label Null = Null"

text \<open>
  The body of the loop over \<open>indicators\<close> for a \<open>name\<close> that is a column: \<open>None\<close> when
  the iteration appends nothing. When two sexes of the data have the same lower-case
  name, \<open>wide["female"] - wide["male"]\<close> is not a subtraction of two series and raises
  a \<open>ValueError\<close>.
\<close>

definition long_gap :: "table \<Rightarrow> string \<Rightarrow> string list \<Rightarrow> table option result" where
  "long_gap df name produced =
     (case pivot_table df name of
        Inl e \<Rightarrow> Inl e
      | Inr wide \<Rightarrow>
          let females = filter (\<lambda>s. normalize_label s = Str ''female'') (pv_labels wide);
              males = filter (\<lambda>s. normalize_label s = Str ''male'') (pv_labels wide);
              gap_col = name @ ''_gap_fm''
          in if females = [] \<or> males = [] then Inr None
             else if gap_col \<in> set produced then Inr None
             else (case (females, males) of
                     ([f], [m]) \<Rightarrow>
                       Inr (Some \<lparr>columns = keys @ [gap_col],
                                  rows = map (\<lambda>k. row_of (zip keys k @
                                                [(gap_col, cell_sub (pv_value wide k f)
                                                                    (pv_value wide k m))]))
                                             (pv_index wide)\<rparr>)
                   | _ \<Rightarrow> Inl (ValueError ''Operands are not aligned'')))"

fun long_pass ::
  "table \<Rightarrow> string list \<Rightarrow> table list \<Rightarrow> string list \<Rightarrow> (table list \<times> string list) result" where
  "long_pass df [] out produced = Inr (out, produced)"
| "long_pass df (name # names) out produced =
     (if name \<notin> set (columns df) then long_pass df names out produced
      else (case long_gap df name produced of
              Inl e \<Rightarrow> Inl e
            | Inr None \<Rightarrow> long_pass df names out produced
            | Inr (Some part) \<Rightarrow>
                long_pass df names (out @ [part]) (produced @ [name @ ''_gap_fm''])))"

definition long_shape :: "table \<Rightarrow> (table list \<times> string list) result" where
  "long_shape df =
     (if ''sex'' \<in> set (columns df) then long_pass df indicators [] [] else Inr ([], []))"

definition male_cols :: "table \<Rightarrow> string list" where
  "male_cols df = filter (\<lambda>c. py_endswith c ''_male'') (columns df)"

definition female_of :: "string \<Rightarrow> string" where
  "female_of male_col = take (length male_col - 5) male_col @ ''_female''"

definition rstrip_underscore :: "string \<Rightarrow> string" where
  "rstrip_underscore s = rev (dropWhile (\<lambda>c. c = CHR ''_'') (rev s))"

definition gap_name_of :: "string \<Rightarrow> string" where
  "gap_name_of male_col =
     (let base = take (length male_col - 5) male_col;
          indicator_name = (if py_endswith base ''_'' then rstrip_underscore base else base);
          indicator_name' = (if indicator_name = [] then take (length male_col - 5) male_col
                             else indicator_name)
      in indicator_name' @ ''_gap_fm'')"

text \<open>\<open>part[c] = values\<close>, the values in the order of the rows.\<close>

definition setitem_column :: "table \<Rightarrow> string \<Rightarrow> cell list \<Rightarrow> table" where
  "setitem_column t c vs =
     \<lparr>columns = (if c \<in> set (columns t) then columns t else columns t @ [c]),
      rows = map (\<lambda>(r, v). r(c := v)) (zip (rows t) vs)\<rparr>"

fun wide_pass ::
  "table \<Rightarrow> string list \<Rightarrow> table list \<Rightarrow> string list \<Rightarrow> (table list \<times> string list) result" where
  "wide_pass df [] out produced = Inr (out, produced)"
| "wide_pass df (male_col # rest) out produced =
     (if female_of male_col \<notin> set (columns df) then wide_pass df rest out produced
      else if gap_name_of male_col \<in> set produced then wide_pass df rest out produced
      else (case getitem_columns df keys of
              Inl e \<Rightarrow> Inl e
            | Inr part \<Rightarrow>
                (case series_sub df (female_of male_col) male_col of
                   Inl e \<Rightarrow> Inl e
                 | Inr gap \<Rightarrow>
                     wide_pass df rest
                       (out @ [setitem_column part (gap_name_of male_col) gap])
                       (produced @ [gap_name_of male_col]))))"

text \<open>The gap tables in the order they are produced: the list \<open>out\<close> before the merge.\<close>

definition gap_parts :: "table \<Rightarrow> table list result" where
  "gap_parts df =
     (case long_shape df of
        Inl e \<Rightarrow> Inl e
      | Inr (out, produced) \<Rightarrow>
          (case wide_pass df (male_cols df) out produced of
             Inl e \<Rightarrow> Inl e
           | Inr (out', produced') \<Rightarrow> Inr out'))"

fun merge_parts :: "table \<Rightarrow> table list \<Rightarrow> table result" where
  "merge_parts res [] = Inr res"
| "merge_parts res (part # parts) =
     (case pd_merge HowOuter [''country'', ''country_iso3'', ''year''] res part of
        Inl e \<Rightarrow> Inl e
      | Inr res' \<Rightarrow> merge_parts res' parts)"

definition gender_gap :: "table \<Rightarrow> table result" where
  "gender_gap df =
     (case gap_parts df of
        Inl e \<Rightarrow> Inl e
      | Inr [] \<Rightarrow> Inl (ValueError ''Sex-stratified columns not found'')
      | Inr (part # parts) \<Rightarrow> merge_parts part parts)"

text \<open>What a result shows: the error, or the column labels and the cells of the rows.\<close>

definition cells :: "table \<Rightarrow> cell list list" where
  "cells t = map (\<lambda>r. map r (columns t)) (rows t)"

definition shown :: "table result \<Rightarrow> exn + string list \<times> cell list list" where
  "shown res = (case res of Inl e \<Rightarrow> Inl e | Inr t \<Rightarrow> Inr (columns t, cells t))"

section \<open>Example inputs\<close>

text \<open>A table written out: the column labels and the cells of each row.\<close>

definition frame :: "string list \<Rightarrow> cell list list \<Rightarrow> table" where
  "frame cs rs = \<lparr>columns = cs, rows = map (\<lambda>vs. row_of (zip cs vs)) rs\<rparr>"

text \<open>
  The canonical name of the Ivory Coast, with its accented letter (U+00F4, o with
  circumflex) and its apostrophe (U+0027), and a spelling of it in other case, with other
  punctuation and spacing, that keeps the accented letter (U+00D4 is its capital).
\<close>

definition cote_canonical :: string where
  "cote_canonical = ''C'' @ [CHR 0xF4] @ ''te d'' @ [CHR 0x27] @ ''Ivoire''"

definition cote_respelled :: string where
  "cote_respelled = ''  c'' @ [CHR 0xD4] @ ''TE-D IVOIRE.''"

text \<open>
  A converter that knows one ISO numeric code, as \<open>country_converter\<close> does for every
  name that reads as a number: \<open>4\<close> is Afghanistan.
\<close>

definition iso_numeric_converter :: converter where
  "iso_numeric_converter name = (if name = ''4'' then ConvStr ''AFG'' else ConvNone)"

text \<open>A file on which every reader fails with the defect, each with a message of its own.\<close>

definition env_all_defect :: reader_env where
  "env_all_defect = \<lparr>
     read_parquet = (\<lambda>cols. Inl (OSError ''Repetition level histogram size mismatch (dataset)'')),
     import_pyarrow = None,
     read_table_legacy = Inl (OSError ''Repetition level histogram size mismatch (legacy)''),
     read_table_plain = Inl (OSError ''Repetition level histogram size mismatch (plain)''),
     parquet_file_read = Inl (OSError ''Repetition level histogram size mismatch (file)''),
     read_parquet_fastparquet =
       (\<lambda>cols. Inl (OSError ''Repetition level histogram size mismatch (fastparquet)''))\<rparr>"

text \<open>A path that does not exist, and a file that only the first reader cannot read.\<close>

definition env_no_file :: reader_env where
  "env_no_file = \<lparr>
     read_parquet = (\<lambda>cols. Inl (OSError ''No such file or directory'')),
     import_pyarrow = None,
     read_table_legacy = Inl (OSError ''No such file or directory''),
     read_table_plain = Inl (OSError ''No such file or directory''),
     parquet_file_read = Inl (OSError ''No such file or directory''),
     read_parquet_fastparquet = (\<lambda>cols. Inl (OSError ''No such file or directory''))\<rparr>"

definition env_first_defect :: reader_env where
  "env_first_defect = \<lparr>
     read_parquet = (\<lambda>cols. Inl (OSError ''Repetition level histogram size mismatch'')),
     import_pyarrow = None,
     read_table_legacy = Inr (frame [''year''] [[Num 2020]]),
     read_table_plain = Inr (frame [''year''] [[Num 2020]]),
     parquet_file_read = Inr (frame [''year''] [[Num 2020]]),
     read_parquet_fastparquet = (\<lambda>cols. Inr (frame [''year''] [[Num 2020]]))\<rparr>"

definition ingest_example :: table where
  "ingest_example = frame [''country'', ''prevalence_male'', ''prevalence_female'']
     [[Str ''X'', Num 10, Num 20], [Str ''Y'', Num 10, Null], [Str ''Z'', Null, Null]]"

definition clean_example :: table where
  "clean_example = frame [''country_iso3'', ''year'', ''sex'', ''prevalence_total'']
     [[Str ''FRA'', Num 2020, Str ''male'', Num 5], [Str ''FRA'', Num 2020, Str ''female'', Num 5]]"




text \<open>
  Notions for the statements about the merge of the gap tables. The gap column of a gap
  table is its last column. \<open>gap_shaped ps\<close>: every table of \<open>ps\<close> has the key columns
  and one gap column, and the gap columns differ. \<open>merged_of t ps\<close>: \<open>t\<close> has the key
  columns and the gap columns of \<open>ps\<close>; every row of every table of \<open>ps\<close> has a row in
  \<open>t\<close> with its key and its gap; every row of \<open>t\<close> has the key of a row of some table of
  \<open>ps\<close>; a row of \<open>t\<close> whose key a table of \<open>ps\<close> lacks has a missing value in the gap
  column of that table; and \<open>t\<close> has no key twice when no table of \<open>ps\<close> has.
\<close>

definition gap_column :: "table \<Rightarrow> string" where
  "gap_column p = last (columns p)"

definition gap_shaped :: "table list \<Rightarrow> bool" where
  "gap_shaped ps \<longleftrightarrow>
     (\<forall>p \<in> set ps. \<exists>g. columns p = keys @ [g] \<and> g \<notin> set keys)
     \<and> distinct (map gap_column ps)"

definition merged_of :: "table \<Rightarrow> table list \<Rightarrow> bool" where
  "merged_of t ps \<longleftrightarrow>
     columns t = keys @ map gap_column ps
     \<and> (\<forall>p \<in> set ps. \<forall>r \<in> set (rows p). \<exists>m \<in> set (rows t).
           row_key keys m = row_key keys r \<and> m (gap_column p) = r (gap_column p))
     \<and> (\<forall>m \<in> set (rows t). \<exists>p \<in> set ps. row_key keys m \<in> row_key keys ` set (rows p))
     \<and> (\<forall>p \<in> set ps. \<forall>m \<in> set (rows t).
           row_key keys m \<notin> row_key keys ` set (rows p) \<longrightarrow> m (gap_column p) = Null)
     \<and> ((\<forall>p \<in> set ps. distinct (map (row_key keys) (rows p)))
          \<longrightarrow> distinct (map (row_key keys) (rows t)))"

text \<open>The gap table that the wide-shape pass appends for a column ending in \<open>_male\<close>.\<close>

definition wide_gap_table :: "table \<Rightarrow> string \<Rightarrow> table" where
  "wide_gap_table df male_col =
     setitem_column (select_columns df keys) (gap_name_of male_col)
       (map (\<lambda>r. cell_sub (r (female_of male_col)) (r male_col)) (rows df))"

definition long_example :: table where
  "long_example = frame
     [''country'', ''country_iso3'', ''year'', ''sex'', ''prevalence_total'', ''prevalence_anxiety'']
     [[Str ''X'', Str ''XXX'', Num 2019, Str ''Male'', Num 10, Null],
      [Str ''X'', Str ''XXX'', Num 2019, Str ''Female'', Num 16, Null],
      [Str ''X'', Str ''XXX'', Num 2020, Str ''Male'', Num 10, Num 1],
      [Str ''X'', Str ''XXX'', Num 2020, Str ''Female'', Num 17, Num 3],
      [Str ''X'', Str ''XXX'', Num 2021, Str ''Male'', Null, Num 1],
      [Str ''X'', Str ''XXX'', Num 2021, Str ''Female'', Null, Num 4]]"

definition mixed_example :: table where
  "mixed_example = frame
     [''country'', ''country_iso3'', ''year'', ''sex'', ''prevalence_total'',
      ''prevalence_male'', ''prevalence_female'']
     [[Str ''X'', Str ''XXX'', Num 2020, Str ''Male'', Num 10, Num 4, Num 9],
      [Str ''X'', Str ''XXX'', Num 2020, Str ''Female'', Num 16, Num 4, Num 9]]"

definition wide_repeat_example :: table where
  "wide_repeat_example = frame
     [''country'', ''country_iso3'', ''year'', ''dep_male'', ''dep_female'',
      ''anx_male'', ''anx_female'']
     [[Str ''X'', Str ''XXX'', Num 2020, Num 4, Num 10, Num 1, Num 2],
      [Str ''X'', Str ''XXX'', Num 2020, Num 5, Num 9, Num 2, Num 4]]"

definition underscore_example :: table where
  "underscore_example = frame
     [''country'', ''country_iso3'', ''year'', ''prevalence__male'', ''prevalence__female'',
      ''prevalence_male'', ''prevalence_female'']
     [[Str ''X'', Str ''XXX'', Num 2020, Num 1, Num 2, Num 10, Num 20]]"

section \<open>Spelling variants of a name\<close>

text \<open>
  \<open>spelling_variant s t\<close>: \<open>t\<close> is \<open>s\<close> up to the case of its letters and up to
  characters that are neither letters nor digits (punctuation, spacing), which either
  side may have anywhere.
\<close>

definition same_letter :: "char \<Rightarrow> char \<Rightarrow> bool" where
  "same_letter c d = (c = d \<or> (is_upper c \<and> d = lower_char c) \<or> (is_upper d \<and> c = lower_char d))"

fun spelling_variant :: "string \<Rightarrow> string \<Rightarrow> bool" where
  "spelling_variant [] [] = True"
| "spelling_variant [] (d # t) = (\<not> py_isalnum d \<and> spelling_variant [] t)"
| "spelling_variant (c # s) [] = (\<not> py_isalnum c \<and> spelling_variant s [])"
| "spelling_variant (c # s) (d # t) =
     ((\<not> py_isalnum c \<and> spelling_variant s (d # t))
      \<or> (\<not> py_isalnum d \<and> spelling_variant (c # s) t)
      \<or> (same_letter c d \<and> spelling_variant s t))"

section \<open>Properties of the Python strings\<close>

lemma of_char_lower_char:
  "of_char (lower_char c) = (if is_upper c then of_char c + 32 else (of_char c :: nat))"
  by (auto simp: lower_char_def is_upper_def Let_def)

lemma py_isalnum_lower_char: "py_isalnum (lower_char c) = py_isalnum c"
  unfolding py_isalnum_def Let_def of_char_lower_char by (auto simp: is_upper_def Let_def)

lemma lower_char_idem: "lower_char (lower_char c) = lower_char c"
proof -
  have "\<not> is_upper (lower_char c)"
    unfolding is_upper_def Let_def of_char_lower_char by (auto simp: is_upper_def Let_def)
  then show ?thesis by (simp add: lower_char_def[of "lower_char c"])
qed

lemma same_letter_lower: "same_letter c d \<Longrightarrow> lower_char c = lower_char d"
  by (auto simp: same_letter_def lower_char_idem)

lemma normalize_key_Nil: "normalize_key [] = []"
  by (simp add: normalize_key_def py_lower_def)

lemma normalize_key_Cons:
  "normalize_key (c # s) = (if py_isalnum c then lower_char c # normalize_key s else normalize_key s)"
  by (simp add: normalize_key_def py_lower_def py_isalnum_lower_char)

lemma spelling_variant_key: "spelling_variant s t \<Longrightarrow> normalize_key s = normalize_key t"
proof (induction s t rule: spelling_variant.induct)
  case 1
  then show ?case by simp
next
  case (2 d t)
  then show ?case by (simp add: normalize_key_Cons)
next
  case (3 c s)
  then show ?case by (simp add: normalize_key_Cons)
next
  case (4 c s d t)
  from "4.prems" consider
      (left) "\<not> py_isalnum c" "spelling_variant s (d # t)"
    | (right) "\<not> py_isalnum d" "spelling_variant (c # s) t"
    | (both) "same_letter c d" "spelling_variant s t"
    by auto
  then show ?case
  proof cases
    case left
    then show ?thesis using "4.IH"(1) by (simp add: normalize_key_Cons)
  next
    case right
    then show ?thesis using "4.IH"(2) by (simp add: normalize_key_Cons[of d t])
  next
    case both
    have "py_isalnum c = py_isalnum d"
      using same_letter_lower[OF both(1)] py_isalnum_lower_char[of c] py_isalnum_lower_char[of d]
      by simp
    then show ?thesis
      using "4.IH"(3) both same_letter_lower[OF both(1)] by (simp add: normalize_key_Cons)
  qed
qed

lemma filter_dropWhile_disjoint:
  "(\<And>x. Q x \<Longrightarrow> \<not> P x) \<Longrightarrow> filter P (dropWhile Q xs) = filter P xs"
  by (induction xs) auto

lemma py_isspace_not_alnum: "py_isspace c \<Longrightarrow> \<not> py_isalnum c"
  by (auto simp: py_isspace_def py_isalnum_def Let_def)

lemma normalize_key_alt: "normalize_key s = map lower_char (filter py_isalnum s)"
  by (induction s) (simp_all add: normalize_key_Nil normalize_key_Cons)

lemma normalize_key_strip: "normalize_key (py_strip s) = normalize_key s"
proof -
  have "filter py_isalnum (py_strip s) = filter py_isalnum s"
    unfolding py_strip_def
    by (simp add: filter_dropWhile_disjoint[OF py_isspace_not_alnum] flip: rev_filter)
  then show ?thesis by (simp add: normalize_key_alt)
qed

lemma to_iso3_map_fallback_only:
  "to_iso3_map None raw (PyStr s) =
     (case fallback_lookup raw (PyStr s) of
        None \<Rightarrow> None | Some code \<Rightarrow> if code = [] then None else Some code)"
proof (cases "py_strip s = []")
  case True
  then have "normalize_key s = []"
    using normalize_key_strip[of s] by (simp add: normalize_key_Nil)
  with True show ?thesis by (simp add: to_iso3_map_def)
next
  case False
  then show ?thesis by (simp add: to_iso3_map_def normalize_key_strip Let_def)
qed

lemma map_of_rev_unique:
  assumes "(k, v) \<in> set al" and "\<forall>(k', v') \<in> set al. k' = k \<longrightarrow> v' = v"
  shows "map_of (rev al) k = Some v"
proof -
  from assms(1) have "k \<in> fst ` set (rev al)" by force
  then obtain v' where v': "map_of (rev al) k = Some v'"
    by (metis map_of_eq_None_iff not_Some_eq)
  then have "(k, v') \<in> set al" by (metis map_of_SomeD set_rev)
  with assms(2) have "v' = v" by auto
  with v' show ?thesis by simp
qed

lemma fallback_lookup_listed:
  assumes "(name, code) \<in> set raw" and "normalize_key name \<noteq> []"
    and "\<forall>(n', c') \<in> set raw. normalize_key n' = normalize_key name \<longrightarrow> c' = code"
  shows "fallback_lookup raw (PyStr name) = Some code"
proof -
  let ?al = "map (\<lambda>(name, code). (normalize_key name, code)) raw"
  have "(normalize_key name, code) \<in> set ?al" using assms(1) by force
  moreover have "\<forall>(k', v') \<in> set ?al. k' = normalize_key name \<longrightarrow> v' = code"
    using assms(3) by auto
  ultimately have "map_of (rev ?al) (normalize_key name) = Some code"
    by (rule map_of_rev_unique)
  then show ?thesis using assms(2) by (simp add: fallback_iso_map_def Let_def)
qed

lemma normalize_key_append: "normalize_key (xs @ ys) = normalize_key xs @ normalize_key ys"
  by (simp add: normalize_key_alt)

lemma normalize_key_replace_letter:
  assumes "py_isalnum c" and "py_isalnum d" and "lower_char c \<noteq> lower_char d"
  shows "normalize_key (xs @ d # ys) \<noteq> normalize_key (xs @ c # ys)"
  using assms by (simp add: normalize_key_append normalize_key_Cons)

lemma fallback_lookup_unlisted:
  assumes "\<forall>(n', c') \<in> set raw. normalize_key n' \<noteq> normalize_key s"
  shows "fallback_lookup raw (PyStr s) = None"
proof -
  have "normalize_key s \<notin> fst ` set (rev (map (\<lambda>(name, code). (normalize_key name, code)) raw))"
    using assms by force
  then have "map_of (rev (map (\<lambda>(name, code). (normalize_key name, code)) raw))
               (normalize_key s) = None"
    by (rule map_of_eq_None_iff[THEN iffD2])
  then have "fallback_iso_map raw (normalize_key s) = None"
    by (simp add: fallback_iso_map_def)
  then show ?thesis by (simp add: Let_def)
qed

section \<open>The Code Resolver\<close>

text \<open>
  C4, as the code has it, for names written with the code points U+0000 to U+00FF. A
  spelling of a name that differs from it in the case of letters and in punctuation and
  spacing has the same normalized key, so the fallback lookup and the fallback-only
  resolver give it the result they give the name; when the table lists the name with a
  code, the key is not empty and no other entry of the same key has another code, that
  result is the code. An accented letter is alphanumeric and stays in the key: a
  spelling that replaces a letter of the name by another letter (an accented letter by
  its base letter) has another key than the name and its variants, and a table whose
  entries all have the key of the name resolves that spelling to absent.
\<close>

theorem fallback_spelling_invariance:
  assumes "spelling_variant name t"
  shows "normalize_key t = normalize_key name
     \<and> fallback_lookup raw (PyStr t) = fallback_lookup raw (PyStr name)
     \<and> to_iso3 None raw [PyStr t] = to_iso3 None raw [PyStr name]
     \<and> ((name, code) \<in> set raw \<and> normalize_key name \<noteq> []
          \<and> (\<forall>(n', c') \<in> set raw. normalize_key n' = normalize_key name \<longrightarrow> c' = code)
        \<longrightarrow> fallback_lookup raw (PyStr t) = Some code)
     \<and> (\<forall>xs c ys d. name = xs @ c # ys \<and> py_isalnum c \<and> py_isalnum d
            \<and> lower_char c \<noteq> lower_char d
          \<longrightarrow> normalize_key (xs @ d # ys) \<noteq> normalize_key t
            \<and> ((\<forall>(n', c') \<in> set raw. normalize_key n' = normalize_key name)
                 \<longrightarrow> fallback_lookup raw (PyStr (xs @ d # ys)) = None
                   \<and> to_iso3 None raw [PyStr (xs @ d # ys)] = [None]))"
proof -
  have k: "normalize_key t = normalize_key name"
    using assms by (simp add: spelling_variant_key)
  then have l: "fallback_lookup raw (PyStr t) = fallback_lookup raw (PyStr name)"
    by simp
  then have m: "to_iso3 None raw [PyStr t] = to_iso3 None raw [PyStr name]"
    by (simp add: to_iso3_def to_iso3_map_fallback_only)
  have r: "normalize_key (xs @ d # ys) \<noteq> normalize_key t
            \<and> ((\<forall>(n', c') \<in> set raw. normalize_key n' = normalize_key name)
                 \<longrightarrow> fallback_lookup raw (PyStr (xs @ d # ys)) = None
                   \<and> to_iso3 None raw [PyStr (xs @ d # ys)] = [None])"
    if h: "name = xs @ c # ys" "py_isalnum c" "py_isalnum d" "lower_char c \<noteq> lower_char d"
    for xs c ys d
  proof -
    have ne: "normalize_key (xs @ d # ys) \<noteq> normalize_key name"
      unfolding h(1) by (rule normalize_key_replace_letter[OF h(2,3,4)])
    have "fallback_lookup raw (PyStr (xs @ d # ys)) = None
            \<and> to_iso3 None raw [PyStr (xs @ d # ys)] = [None]"
      if a: "\<forall>(n', c') \<in> set raw. normalize_key n' = normalize_key name"
    proof -
      from a ne have "\<forall>(n', c') \<in> set raw. normalize_key n' \<noteq> normalize_key (xs @ d # ys)"
        by auto
      then have "fallback_lookup raw (PyStr (xs @ d # ys)) = None"
        by (rule fallback_lookup_unlisted)
      then show ?thesis by (simp add: to_iso3_def to_iso3_map_fallback_only)
    qed
    with ne k show ?thesis by simp
  qed
  have c4: "(name, code) \<in> set raw \<and> normalize_key name \<noteq> []
          \<and> (\<forall>(n', c') \<in> set raw. normalize_key n' = normalize_key name \<longrightarrow> c' = code)
        \<longrightarrow> fallback_lookup raw (PyStr t) = Some code"
    using l fallback_lookup_listed[of name code raw] by auto
  have c5: "\<forall>xs c ys d. name = xs @ c # ys \<and> py_isalnum c \<and> py_isalnum d
            \<and> lower_char c \<noteq> lower_char d
          \<longrightarrow> normalize_key (xs @ d # ys) \<noteq> normalize_key t
            \<and> ((\<forall>(n', c') \<in> set raw. normalize_key n' = normalize_key name)
                 \<longrightarrow> fallback_lookup raw (PyStr (xs @ d # ys)) = None
                   \<and> to_iso3 None raw [PyStr (xs @ d # ys)] = [None])"
  proof (intro allI impI)
    fix xs c ys d
    assume "name = xs @ c # ys \<and> py_isalnum c \<and> py_isalnum d
            \<and> lower_char c \<noteq> lower_char d"
    then have "name = xs @ c # ys" and "py_isalnum c" and "py_isalnum d"
      and "lower_char c \<noteq> lower_char d"
      by simp_all
    then show "normalize_key (xs @ d # ys) \<noteq> normalize_key t
            \<and> ((\<forall>(n', c') \<in> set raw. normalize_key n' = normalize_key name)
                 \<longrightarrow> fallback_lookup raw (PyStr (xs @ d # ys)) = None
                   \<and> to_iso3 None raw [PyStr (xs @ d # ys)] = [None])"
      by (rule r)
  qed
  from k l m c4 c5 show ?thesis by (intro conjI)
qed

theorem fallback_spelling_invariance_witness:
  "spelling_variant cote_canonical cote_respelled
   \<and> normalize_key cote_respelled = normalize_key cote_canonical
   \<and> fallback_lookup [(cote_canonical, ''CIV'')] (PyStr cote_respelled) = Some ''CIV''
   \<and> cote_canonical = ''C'' @ CHR 0xF4 # (''te d'' @ [CHR 0x27] @ ''Ivoire'')
   \<and> normalize_key (''C'' @ CHR ''o'' # (''te d'' @ [CHR 0x27] @ ''Ivoire''))
       \<noteq> normalize_key cote_respelled
   \<and> to_iso3 None [(cote_canonical, ''CIV'')]
        [PyStr (''C'' @ CHR ''o'' # (''te d'' @ [CHR 0x27] @ ''Ivoire''))] = [None]"
proof -
  have v: "spelling_variant cote_canonical cote_respelled"
    by code_simp
  have l: "fallback_lookup [(cote_canonical, ''CIV'')] (PyStr cote_canonical) = Some ''CIV''"
    by code_simp
  have n: "cote_canonical = ''C'' @ CHR 0xF4 # (''te d'' @ [CHR 0x27] @ ''Ivoire'')"
    by (simp add: cote_canonical_def)
  have c: "py_isalnum (CHR 0xF4)"
    by code_simp
  have d: "py_isalnum (CHR ''o'')"
    by code_simp
  have cd: "lower_char (CHR 0xF4) \<noteq> lower_char (CHR ''o'')"
    by code_simp
  have a: "\<forall>(n', c') \<in> set [(cote_canonical, ''CIV'')].
             normalize_key n' = normalize_key cote_canonical"
    by simp
  note t = fallback_spelling_invariance[OF v, of "[(cote_canonical, ''CIV'')]" "''CIV''"]
  from t have k: "normalize_key cote_respelled = normalize_key cote_canonical"
    and e: "fallback_lookup [(cote_canonical, ''CIV'')] (PyStr cote_respelled)
            = fallback_lookup [(cote_canonical, ''CIV'')] (PyStr cote_canonical)"
    by blast+
  from t have r: "\<forall>xs c ys d. cote_canonical = xs @ c # ys \<and> py_isalnum c \<and> py_isalnum d
            \<and> lower_char c \<noteq> lower_char d
          \<longrightarrow> normalize_key (xs @ d # ys) \<noteq> normalize_key cote_respelled
            \<and> ((\<forall>(n', c') \<in> set [(cote_canonical, ''CIV'')].
                    normalize_key n' = normalize_key cote_canonical)
                 \<longrightarrow> fallback_lookup [(cote_canonical, ''CIV'')] (PyStr (xs @ d # ys)) = None
                   \<and> to_iso3 None [(cote_canonical, ''CIV'')] [PyStr (xs @ d # ys)] = [None])"
    by (elim conjE)
  from r[rule_format, of "''C''" "CHR 0xF4" "''te d'' @ [CHR 0x27] @ ''Ivoire''" "CHR ''o''"]
    n c d cd a
  have u: "normalize_key (''C'' @ CHR ''o'' # (''te d'' @ [CHR 0x27] @ ''Ivoire''))
       \<noteq> normalize_key cote_respelled"
    and w: "to_iso3 None [(cote_canonical, ''CIV'')]
        [PyStr (''C'' @ CHR ''o'' # (''te d'' @ [CHR 0x27] @ ''Ivoire''))] = [None]"
    by (simp_all only: simp_thms)
  from v k e[unfolded l] n u w show ?thesis by (intro conjI)
qed

text \<open>
  C4, as stated, fails: the key of the canonical name keeps the accented letter
  (U+00F4), the key of \<open>cote d ivoire\<close> has the plain one, and a table that lists the
  canonical name alone resolves the first and not the second.
\<close>

theorem diacritic_key_counterexample:
  "normalize_key cote_canonical = ''c'' @ [CHR 0xF4] @ ''tedivoire''
   \<and> normalize_key ''cote d ivoire'' = ''cotedivoire''
   \<and> to_iso3 None [(cote_canonical, ''CIV'')] [PyStr cote_canonical] = [Some ''CIV'']
   \<and> to_iso3 None [(cote_canonical, ''CIV'')] [PyStr ''cote d ivoire''] = [None]"
  by code_simp

text \<open>
  C7 at an input that is not a string: \<open>to_iso3\<close> turns the integer 4 into the text
  \<open>4\<close> before \<open>_map\<close> sees it, so it is resolved like a name, here to a code.
\<close>

theorem to_iso3_integer_resolves:
  "to_iso3 (Some iso_numeric_converter) [] [PyInt 4] = [Some ''AFG'']"
  by code_simp

section \<open>The Resilient Reader\<close>

lemma defect_not_TypeError: "is_defect e \<Longrightarrow> \<not> is_TypeError e"
  by (cases e) simp_all

text \<open>
  C6. When the first reader raises an error that does not have the defect signature,
  \<open>read_parquet_safe\<close> raises that error and has called no other reader; and whenever
  another reader was called, the first one had raised an error with the signature.
\<close>

theorem other_error_propagates:
  "(read_parquet env cols = Inl err \<and> \<not> is_defect err
      \<longrightarrow> read_parquet_safe env cols = ([Primary], Inl err))
   \<and> (fst (read_parquet_safe env cols) \<noteq> [Primary]
      \<longrightarrow> (\<exists>e. read_parquet env cols = Inl e \<and> is_defect e))"
  by (auto simp: read_parquet_safe_def split: sum.splits option.splits if_splits)

theorem other_error_propagates_witness:
  "read_parquet_safe env_no_file None = ([Primary], Inl (OSError ''No such file or directory''))
   \<and> fst (read_parquet_safe env_first_defect None) = [Primary, LegacyDataset]
   \<and> (\<exists>e. read_parquet env_first_defect None = Inl e \<and> is_defect e)"
proof -
  have a: "read_parquet env_no_file None = Inl (OSError ''No such file or directory'')"
    by (simp add: env_no_file_def)
  have b: "\<not> is_defect (OSError ''No such file or directory'')"
    by (simp add: signature_text_def)
  have c: "fst (read_parquet_safe env_first_defect None) = [Primary, LegacyDataset]"
    by (simp add: read_parquet_safe_def env_first_defect_def signature_text_def)
  show ?thesis
    using a b c
      other_error_propagates[of env_no_file None "OSError ''No such file or directory''"]
      other_error_propagates[of env_first_defect None]
    by simp
qed

text \<open>
  C2, as the code has it. When the first reader and the two pyarrow readers that follow
  fail with the defect signature and the fastparquet reader fails too, with any error,
  \<open>read_parquet_safe\<close> raises the error of the third attempt, the single-file read.
\<close>

theorem exhausted_raises_third_error:
  assumes "read_parquet env cols = Inl err1" and "is_defect err1"
    and "import_pyarrow env = None"
    and "read_table_legacy env = Inl err2" and "is_defect err2"
    and "parquet_file_read env = Inl err3" and "is_defect err3"
    and "read_parquet_fastparquet env cols = Inl err4"
  shows "read_parquet_safe env cols
           = ([Primary, LegacyDataset, SingleFile, FastParquet], Inl err3)"
  using assms by (simp add: read_parquet_safe_def defect_not_TypeError)

theorem exhausted_raises_third_error_witness:
  "read_parquet_safe env_all_defect None
     = ([Primary, LegacyDataset, SingleFile, FastParquet],
        Inl (OSError ''Repetition level histogram size mismatch (file)''))"
proof -
  have d1: "is_defect (OSError ''Repetition level histogram size mismatch (dataset)'')"
    by code_simp
  have d2: "is_defect (OSError ''Repetition level histogram size mismatch (legacy)'')"
    by code_simp
  have d3: "is_defect (OSError ''Repetition level histogram size mismatch (file)'')"
    by code_simp
  have a: "read_parquet env_all_defect None
             = Inl (OSError ''Repetition level histogram size mismatch (dataset)'')"
    and i: "import_pyarrow env_all_defect = None"
    and b: "read_table_legacy env_all_defect
             = Inl (OSError ''Repetition level histogram size mismatch (legacy)'')"
    and c: "parquet_file_read env_all_defect
             = Inl (OSError ''Repetition level histogram size mismatch (file)'')"
    and f: "read_parquet_fastparquet env_all_defect None
             = Inl (OSError ''Repetition level histogram size mismatch (fastparquet)'')"
    by (simp_all add: env_all_defect_def)
  show ?thesis
    by (rule exhausted_raises_third_error[OF a d1 i b d2 c d3 f])
qed

text \<open>
  C2, as stated, fails: on a file where every reader fails with the defect, the error
  raised is the one of the single-file read, not the one of the first attempt.
\<close>

theorem first_error_counterexample:
  "read_parquet env_all_defect None
     = Inl (OSError ''Repetition level histogram size mismatch (dataset)'')
   \<and> snd (read_parquet_safe env_all_defect None)
       = Inl (OSError ''Repetition level histogram size mismatch (file)'')
   \<and> snd (read_parquet_safe env_all_defect None) \<noteq> read_parquet env_all_defect None"
  by (simp add: read_parquet_safe_def env_all_defect_def signature_text_def)

section \<open>Ingest: the derived total\<close>

lemma mean_skipna_two:
  "mean_skipna [a, b] =
     (case a of Num x \<Rightarrow> (case b of Num y \<Rightarrow> Num ((x + y) / 2) | _ \<Rightarrow> Num x)
      | _ \<Rightarrow> (case b of Num y \<Rightarrow> Num y | _ \<Rightarrow> Null))"
  by (cases a; cases b) (simp_all add: mean_skipna_def)

text \<open>
  C1, as the code has it. When \<open>prevalence_total\<close> is absent and both halves are present
  (numeric columns), the step succeeds, adds the column, and the total of a row is the
  mean of the halves that are not missing: the mean of the two when both are there, the
  one that is there when the other is missing, and missing only when both are missing.
\<close>

theorem derive_total_mean:
  assumes "''prevalence_total'' \<notin> set (columns df)"
    and "''prevalence_male'' \<in> set (columns df)"
    and "''prevalence_female'' \<in> set (columns df)"
    and "\<not> list_ex (\<lambda>r. is_text (r ''prevalence_male'') \<or> is_text (r ''prevalence_female''))
             (rows df)"
  shows "\<exists>df'. derive_total df = Inr df'
           \<and> columns df' = columns df @ [''prevalence_total'']
           \<and> length (rows df') = length (rows df)
           \<and> (\<forall>i < length (rows df).
                let m = (rows df ! i) ''prevalence_male'';
                    f = (rows df ! i) ''prevalence_female'';
                    t = (rows df' ! i) ''prevalence_total''
                in (\<forall>x y. m = Num x \<and> f = Num y \<longrightarrow> t = Num ((x + y) / 2))
                 \<and> (\<forall>x. m = Num x \<and> f = Null \<longrightarrow> t = Num x)
                 \<and> (\<forall>y. m = Null \<and> f = Num y \<longrightarrow> t = Num y)
                 \<and> (m = Null \<and> f = Null \<longrightarrow> t = Null))"
  using assms by (simp add: derive_total_def mean_skipna_two Let_def)

theorem derive_total_mean_witness:
  "\<exists>df'. derive_total ingest_example = Inr df'
     \<and> (rows df' ! 0) ''prevalence_total'' = Num 15
     \<and> (rows df' ! 1) ''prevalence_total'' = Num 10
     \<and> (rows df' ! 2) ''prevalence_total'' = Null"
proof -
  have p1: "''prevalence_total'' \<notin> set (columns ingest_example)"
    and p2: "''prevalence_male'' \<in> set (columns ingest_example)"
    and p3: "''prevalence_female'' \<in> set (columns ingest_example)"
    by (simp_all add: ingest_example_def frame_def)
  have p4: "\<not> list_ex (\<lambda>r. is_text (r ''prevalence_male'') \<or> is_text (r ''prevalence_female''))
              (rows ingest_example)"
    by (simp add: ingest_example_def frame_def row_of_def)
  from derive_total_mean[OF p1 p2 p3 p4] obtain df' where
    d: "derive_total ingest_example = Inr df'"
    and r: "\<forall>i < length (rows ingest_example).
                let m = (rows ingest_example ! i) ''prevalence_male'';
                    f = (rows ingest_example ! i) ''prevalence_female'';
                    t = (rows df' ! i) ''prevalence_total''
                in (\<forall>x y. m = Num x \<and> f = Num y \<longrightarrow> t = Num ((x + y) / 2))
                 \<and> (\<forall>x. m = Num x \<and> f = Null \<longrightarrow> t = Num x)
                 \<and> (\<forall>y. m = Null \<and> f = Num y \<longrightarrow> t = Num y)
                 \<and> (m = Null \<and> f = Null \<longrightarrow> t = Null)"
    by blast
  have "(rows df' ! 0) ''prevalence_total'' = Num 15"
    using r[rule_format, of 0] by (simp add: ingest_example_def frame_def row_of_def Let_def)
  moreover have "(rows df' ! 1) ''prevalence_total'' = Num 10"
    using r[rule_format, of 1] by (simp add: ingest_example_def frame_def row_of_def Let_def)
  moreover have "(rows df' ! 2) ''prevalence_total'' = Null"
    using r[rule_format, of 2] by (simp add: ingest_example_def frame_def row_of_def Let_def)
  ultimately show ?thesis using d by blast
qed

text \<open>
  C1, as stated, fails: in the second row the male half is 10 and the female half is
  missing, and the derived total is 10, not missing.
\<close>

theorem single_sided_total_counterexample:
  "shown (derive_total ingest_example) =
     Inr ([''country'', ''prevalence_male'', ''prevalence_female'', ''prevalence_total''],
          [[Str ''X'', Num 10, Num 20, Num 15],
           [Str ''Y'', Num 10, Null, Num 10],
           [Str ''Z'', Null, Null, Null]])"
  by code_simp

section \<open>The Cleaner\<close>

lemma first_occurrences_filter:
  "filter (\<lambda>r'. row_key cs r' = k) (first_occurrences cs seen rs) =
     (if k \<in> set seen then []
      else case find (\<lambda>r'. row_key cs r' = k) rs of None \<Rightarrow> [] | Some r1 \<Rightarrow> [r1])"
proof (induction rs arbitrary: seen)
  case Nil
  then show ?case by simp
next
  case (Cons r rs)
  show ?case
  proof (cases "row_key cs r \<in> set seen")
    case True
    then show ?thesis using Cons.IH[of seen] by auto
  next
    case False
    then show ?thesis using Cons.IH[of "row_key cs r # seen"] by auto
  qed
qed

lemma row_key_eq_iff: "row_key cs r' = row_key cs r \<longleftrightarrow> (\<forall>c \<in> set cs. r' c = r c)"
  by (simp add: row_key_def)

text \<open>
  C8, as the code has it. Take the rows that have a country code and a year. Of all
  those that agree with a given one on every field except \<open>sex\<close>, whether they agree on
  \<open>sex\<close> or not, \<open>clean\<close> retains exactly one: the first.
\<close>

theorem clean_dedup:
  assumes "clean df = Inr out" and "r \<in> set (rows df)"
    and "r ''country_iso3'' \<noteq> Null" and "r ''year'' \<noteq> Null"
  shows "\<exists>r1. filter (\<lambda>r'. \<forall>c \<in> set (columns df). c \<noteq> ''sex'' \<longrightarrow> r' c = r c) (rows out) = [r1]
            \<and> find (\<lambda>r'. \<forall>c \<in> set (columns df). c \<noteq> ''sex'' \<longrightarrow> r' c = r c)
                 (filter (\<lambda>r'. r' ''country_iso3'' \<noteq> Null \<and> r' ''year'' \<noteq> Null) (rows df))
               = Some r1"
proof -
  let ?cs = "filter (\<lambda>c. c \<noteq> ''sex'') (columns df)"
  let ?kept = "filter (\<lambda>r'. r' ''country_iso3'' \<noteq> Null \<and> r' ''year'' \<noteq> Null) (rows df)"
  let ?same = "\<lambda>r'. \<forall>c \<in> set (columns df). c \<noteq> ''sex'' \<longrightarrow> r' c = r c"
  have same: "?same = (\<lambda>r'. row_key ?cs r' = row_key ?cs r)"
    by (auto simp: row_key_eq_iff)
  have "(\<lambda>r'. Null \<noteq> r' ''country_iso3'' \<and> Null \<noteq> r' ''year'')
      = (\<lambda>r'. r' ''country_iso3'' \<noteq> Null \<and> r' ''year'' \<noteq> Null)"
    by auto
  with assms(1) have out: "rows out = first_occurrences ?cs [] ?kept"
    by (auto simp: clean_def drop_duplicates_def dropna_def row_key_def split: if_splits)
  have "r \<in> set ?kept" using assms by simp
  then have "\<exists>r1. find ?same ?kept = Some r1"
    by (cases "find ?same ?kept") (auto simp: find_None_iff)
  then obtain r1 where f: "find ?same ?kept = Some r1" ..
  have "filter ?same (rows out) = [r1]"
    using f first_occurrences_filter[of ?cs "row_key ?cs r" "[]" ?kept] unfolding out same
    by simp
  with f show ?thesis by blast
qed

theorem clean_dedup_witness:
  "\<exists>out r1. clean clean_example = Inr out
     \<and> filter (\<lambda>r'. \<forall>c \<in> set (columns clean_example). c \<noteq> ''sex'' \<longrightarrow>
                 r' c = (rows clean_example ! 1) c) (rows out) = [r1]
     \<and> r1 ''sex'' = Str ''male'' \<and> (rows clean_example ! 1) ''sex'' = Str ''female''"
proof -
  obtain out where o: "clean clean_example = Inr out"
    by (simp add: clean_def clean_example_def frame_def)
  have m: "rows clean_example ! 1 \<in> set (rows clean_example)"
    by (simp add: clean_example_def frame_def)
  have n: "(rows clean_example ! 1) ''country_iso3'' \<noteq> Null"
      "(rows clean_example ! 1) ''year'' \<noteq> Null"
    by (simp_all add: clean_example_def frame_def row_of_def)
  from clean_dedup[OF o m n] obtain r1 where
    f: "filter (\<lambda>r'. \<forall>c \<in> set (columns clean_example). c \<noteq> ''sex'' \<longrightarrow>
                  r' c = (rows clean_example ! 1) c) (rows out) = [r1]"
    and g: "find (\<lambda>r'. \<forall>c \<in> set (columns clean_example). c \<noteq> ''sex'' \<longrightarrow>
                  r' c = (rows clean_example ! 1) c)
              (filter (\<lambda>r'. r' ''country_iso3'' \<noteq> Null \<and> r' ''year'' \<noteq> Null)
                 (rows clean_example)) = Some r1"
    by blast
  from g have "r1 = rows clean_example ! 0"
    by (simp add: clean_example_def frame_def row_of_def)
  then have "r1 ''sex'' = Str ''male''"
    by (simp add: clean_example_def frame_def row_of_def)
  moreover have "(rows clean_example ! 1) ''sex'' = Str ''female''"
    by (simp add: clean_example_def frame_def row_of_def)
  ultimately show ?thesis using o f by blast
qed

text \<open>
  C8, as stated, fails: two rows that are identical except for \<open>sex\<close> (one male, one
  female) are not both retained; \<open>clean\<close> keeps the first.
\<close>

theorem sex_rows_collapse_counterexample:
  "shown (clean clean_example) =
     Inr ([''country_iso3'', ''year'', ''sex'', ''prevalence_total''],
          [[Str ''FRA'', Num 2020, Str ''male'', Num 5]])"
  by code_simp

section \<open>The Gap Reconciler: missing key columns\<close>






section \<open>Properties of merge\<close>

lemma row_of_lookup: "distinct (map fst al) \<Longrightarrow> (k, v) \<in> set al \<Longrightarrow> row_of al k = v"
  by (simp add: row_of_def)

lemma join_row_left:
  assumes "distinct (merged_columns on L R)" and "c \<in> set (columns L)"
  shows "join_row on L R l ro (left_label on R c) = l c"
  unfolding join_row_def
proof (rule row_of_lookup)
  show "distinct (map fst (map (\<lambda>c. (left_label on R c, l c)) (columns L) @
          map (\<lambda>c. (right_label on L c, case ro of None \<Rightarrow> Null | Some r \<Rightarrow> r c))
            (right_rest on R)))"
    using assms(1) by (simp add: merged_columns_def comp_def)
  show "(left_label on R c, l c) \<in> set (map (\<lambda>c. (left_label on R c, l c)) (columns L) @
          map (\<lambda>c. (right_label on L c, case ro of None \<Rightarrow> Null | Some r \<Rightarrow> r c))
            (right_rest on R))"
    using assms(2) by auto
qed

lemma join_row_right:
  assumes "distinct (merged_columns on L R)" and "c \<in> set (right_rest on R)"
  shows "join_row on L R l ro (right_label on L c) = (case ro of None \<Rightarrow> Null | Some r \<Rightarrow> r c)"
  unfolding join_row_def
proof (rule row_of_lookup)
  show "distinct (map fst (map (\<lambda>c. (left_label on R c, l c)) (columns L) @
          map (\<lambda>c. (right_label on L c, case ro of None \<Rightarrow> Null | Some r \<Rightarrow> r c))
            (right_rest on R)))"
    using assms(1) by (simp add: merged_columns_def comp_def)
  show "(right_label on L c, case ro of None \<Rightarrow> Null | Some r \<Rightarrow> r c)
          \<in> set (map (\<lambda>c. (left_label on R c, l c)) (columns L) @
          map (\<lambda>c. (right_label on L c, case ro of None \<Rightarrow> Null | Some r \<Rightarrow> r c))
            (right_rest on R))"
    using assms(2) by auto
qed

lemma right_only_row_left:
  assumes "distinct (merged_columns on L R)" and "c \<in> set (columns L)"
  shows "right_only_row on L R r (left_label on R c) = (if c \<in> set on then r c else Null)"
  unfolding right_only_row_def
proof (rule row_of_lookup)
  show "distinct (map fst (map (\<lambda>c. (left_label on R c, if c \<in> set on then r c else Null))
            (columns L) @ map (\<lambda>c. (right_label on L c, r c)) (right_rest on R)))"
    using assms(1) by (simp add: merged_columns_def comp_def)
  show "(left_label on R c, if c \<in> set on then r c else Null)
          \<in> set (map (\<lambda>c. (left_label on R c, if c \<in> set on then r c else Null))
            (columns L) @ map (\<lambda>c. (right_label on L c, r c)) (right_rest on R))"
    using assms(2) by auto
qed

lemma right_only_row_right:
  assumes "distinct (merged_columns on L R)" and "c \<in> set (right_rest on R)"
  shows "right_only_row on L R r (right_label on L c) = r c"
  unfolding right_only_row_def
proof (rule row_of_lookup)
  show "distinct (map fst (map (\<lambda>c. (left_label on R c, if c \<in> set on then r c else Null))
            (columns L) @ map (\<lambda>c. (right_label on L c, r c)) (right_rest on R)))"
    using assms(1) by (simp add: merged_columns_def comp_def)
  show "(right_label on L c, r c)
          \<in> set (map (\<lambda>c. (left_label on R c, if c \<in> set on then r c else Null))
            (columns L) @ map (\<lambda>c. (right_label on L c, r c)) (right_rest on R))"
    using assms(2) by auto
qed

lemma left_label_key: "k \<in> set on \<Longrightarrow> left_label on R k = k"
  by (simp add: left_label_def)

lemma join_row_key:
  assumes "distinct (merged_columns on L R)" and "set on \<subseteq> set (columns L)"
  shows "row_key on (join_row on L R l ro) = row_key on l"
  unfolding row_key_def
proof (rule map_cong[OF refl])
  fix k assume k: "k \<in> set on"
  with assms(2) have "k \<in> set (columns L)" by blast
  from join_row_left[OF assms(1) this, of l ro] show "join_row on L R l ro k = l k"
    by (simp add: left_label_key[OF k])
qed

lemma right_only_row_key:
  assumes "distinct (merged_columns on L R)" and "set on \<subseteq> set (columns L)"
  shows "row_key on (right_only_row on L R r) = row_key on r"
  unfolding row_key_def
proof (rule map_cong[OF refl])
  fix k assume k: "k \<in> set on"
  with assms(2) have "k \<in> set (columns L)" by blast
  from right_only_row_left[OF assms(1) this, of r] show "right_only_row on L R r k = r k"
    by (simp add: left_label_key[OF k] k)
qed

lemma pd_merge_InrD:
  assumes "pd_merge h on L R = Inr M"
  shows "on \<noteq> []" and "set on \<subseteq> set (columns L)" and "set on \<subseteq> set (columns R)"
    and "distinct (merged_columns on L R)" and "columns M = merged_columns on L R"
    and "rows M = left_rows on L R
                  @ (case h of HowLeft \<Rightarrow> [] | HowOuter \<Rightarrow> right_only_rows on L R)"
  using assms
  by (auto simp: pd_merge_def filter_empty_conv split: if_splits)

lemma left_rows_member:
  "m \<in> set (left_rows on L R) \<longleftrightarrow>
     (\<exists>l \<in> set (rows L). (matches on R l = [] \<and> m = join_row on L R l None)
        \<or> (\<exists>r \<in> set (matches on R l). m = join_row on L R l (Some r)))"
  by (auto simp: left_rows_def split: if_splits)

lemma right_only_rows_member:
  "m \<in> set (right_only_rows on L R) \<longleftrightarrow>
     (\<exists>r \<in> set (rows R). row_key on r \<notin> row_key on ` set (rows L)
        \<and> m = right_only_row on L R r)"
  by (auto simp: right_only_rows_def)

lemma matches_member: "r \<in> set (matches on R l) \<longleftrightarrow> r \<in> set (rows R) \<and> row_key on r = row_key on l"
  by (auto simp: matches_def)

lemma matches_empty: "matches on R l = [] \<longleftrightarrow> row_key on l \<notin> row_key on ` set (rows R)"
  unfolding matches_def filter_empty_conv image_iff by metis

section \<open>The External Joiner\<close>


lemma distinct_filter_le_1:
  "distinct (map f xs) \<Longrightarrow> length (filter (\<lambda>x. f x = k) xs) \<le> 1"
proof (induction xs)
  case Nil
  then show ?case by simp
next
  case (Cons x xs)
  show ?case
  proof (cases "f x = k")
    case True
    with Cons.prems have "filter (\<lambda>x. f x = k) xs = []"
      unfolding filter_empty_conv by (metis distinct.simps(2) image_eqI list.simps(9) set_map)
    with True show ?thesis by simp
  next
    case False
    with Cons show ?thesis by simp
  qed
qed




section \<open>The Gap Reconciler: the merge of the gap tables\<close>

lemma distinct_keys: "distinct keys"
  by (simp add: keys_def)

lemma gap_merge_labels:
  assumes "columns T = keys @ gs" and "columns p = keys @ [g]"
    and "g \<notin> set keys" and "g \<notin> set gs" and "distinct (keys @ gs)"
  shows "\<forall>c \<in> set (keys @ gs). left_label keys p c = c"
    and "right_rest keys p = [g]"
    and "right_label keys T g = g"
    and "merged_columns keys T p = keys @ gs @ [g]"
proof -
  show l: "\<forall>c \<in> set (keys @ gs). left_label keys p c = c"
    using assms by (auto simp: left_label_def)
  show r: "right_rest keys p = [g]"
    using assms(2,3) by (simp add: right_rest_def filter_empty_conv)
  show g: "right_label keys T g = g"
    using assms by (simp add: right_label_def)
  have "map (left_label keys p) (keys @ gs) = keys @ gs"
    using l by (intro map_idI) blast
  then show "merged_columns keys T p = keys @ gs @ [g]"
    by (simp add: merged_columns_def assms(1) r g)
qed

lemma gap_merge_succeeds:
  assumes "columns T = keys @ gs" and "columns p = keys @ [g]"
    and "g \<notin> set keys" and "g \<notin> set gs" and "distinct (keys @ gs)"
  shows "\<exists>M. pd_merge HowOuter keys T p = Inr M"
proof -
  have "merged_columns keys T p = keys @ gs @ [g]"
    by (rule gap_merge_labels(4)[OF assms])
  moreover have "distinct (keys @ gs @ [g])" using assms by auto
  moreover have "keys \<noteq> []" by (simp add: keys_def)
  ultimately show ?thesis
    by (simp add: pd_merge_def assms(1,2) filter_empty_conv)
qed

lemma gap_merge_rows:
  assumes cT: "columns T = keys @ gs" and cp: "columns p = keys @ [g]"
    and g1: "g \<notin> set keys" and g2: "g \<notin> set gs" and dk: "distinct (keys @ gs)"
    and mg: "pd_merge HowOuter keys T p = Inr M"
  shows "columns M = keys @ gs @ [g]"
    and "\<forall>m \<in> set (rows M).
           (\<exists>l \<in> set (rows T). (\<forall>c \<in> set (keys @ gs). m c = l c)
              \<and> row_key keys m = row_key keys l
              \<and> ((row_key keys l \<notin> row_key keys ` set (rows p) \<and> m g = Null)
                 \<or> (\<exists>r \<in> set (rows p). row_key keys r = row_key keys l \<and> m g = r g)))
         \<or> (\<exists>r \<in> set (rows p). row_key keys r \<notin> row_key keys ` set (rows T)
              \<and> row_key keys m = row_key keys r
              \<and> (\<forall>c \<in> set gs. m c = Null) \<and> m g = r g)"
    and "\<forall>l \<in> set (rows T). \<exists>m \<in> set (rows M). (\<forall>c \<in> set (keys @ gs). m c = l c)
           \<and> row_key keys m = row_key keys l"
    and "\<forall>r \<in> set (rows p). \<exists>m \<in> set (rows M). row_key keys m = row_key keys r \<and> m g = r g"
    and "distinct (map (row_key keys) (rows T)) \<Longrightarrow> distinct (map (row_key keys) (rows p))
           \<Longrightarrow> distinct (map (row_key keys) (rows M))"
proof -
  note lab = gap_merge_labels[OF cT cp g1 g2 dk]
  note d = pd_merge_InrD[OF mg]
  have dm: "distinct (merged_columns keys T p)" by (rule d(4))
  have kT: "set keys \<subseteq> set (columns T)" by (rule d(2))
  show "columns M = keys @ gs @ [g]" using d(5) lab(4) by simp
  have rws: "rows M = left_rows keys T p @ right_only_rows keys T p" using d(6) by simp
  have gr: "g \<in> set (right_rest keys p)" by (simp add: lab(2))
  have jl: "join_row keys T p l ro c = l c" if "c \<in> set (keys @ gs)" for l ro c
    using join_row_left[OF dm, of c l ro] that lab(1) cT by simp
  have jg: "join_row keys T p l ro g = (case ro of None \<Rightarrow> Null | Some r \<Rightarrow> r g)" for l ro
    using join_row_right[OF dm gr, of l ro] lab(3) by simp
  have jk: "row_key keys (join_row keys T p l ro) = row_key keys l" for l ro
    by (rule join_row_key[OF dm kT])
  have ol: "right_only_row keys T p r c = Null" if "c \<in> set gs" for r c
  proof -
    from that dk have "c \<notin> set keys" by auto
    moreover from that have "c \<in> set (columns T)" by (simp add: cT)
    ultimately show ?thesis
      using right_only_row_left[OF dm, of c r] lab(1) that by simp
  qed
  have og: "right_only_row keys T p r g = r g" for r
    using right_only_row_right[OF dm gr, of r] lab(3) by simp
  have ok: "row_key keys (right_only_row keys T p r) = row_key keys r" for r
    by (rule right_only_row_key[OF dm kT])
  show "\<forall>m \<in> set (rows M).
           (\<exists>l \<in> set (rows T). (\<forall>c \<in> set (keys @ gs). m c = l c)
              \<and> row_key keys m = row_key keys l
              \<and> ((row_key keys l \<notin> row_key keys ` set (rows p) \<and> m g = Null)
                 \<or> (\<exists>r \<in> set (rows p). row_key keys r = row_key keys l \<and> m g = r g)))
         \<or> (\<exists>r \<in> set (rows p). row_key keys r \<notin> row_key keys ` set (rows T)
              \<and> row_key keys m = row_key keys r
              \<and> (\<forall>c \<in> set gs. m c = Null) \<and> m g = r g)"
  proof
    fix m assume "m \<in> set (rows M)"
    then consider (left) "m \<in> set (left_rows keys T p)"
      | (right) "m \<in> set (right_only_rows keys T p)"
      unfolding rws by auto
    then show "(\<exists>l \<in> set (rows T). (\<forall>c \<in> set (keys @ gs). m c = l c)
              \<and> row_key keys m = row_key keys l
              \<and> ((row_key keys l \<notin> row_key keys ` set (rows p) \<and> m g = Null)
                 \<or> (\<exists>r \<in> set (rows p). row_key keys r = row_key keys l \<and> m g = r g)))
         \<or> (\<exists>r \<in> set (rows p). row_key keys r \<notin> row_key keys ` set (rows T)
              \<and> row_key keys m = row_key keys r
              \<and> (\<forall>c \<in> set gs. m c = Null) \<and> m g = r g)"
    proof cases
      case left
      then obtain l where l: "l \<in> set (rows T)"
        and c: "(matches keys p l = [] \<and> m = join_row keys T p l None)
          \<or> (\<exists>r \<in> set (matches keys p l). m = join_row keys T p l (Some r))"
        unfolding left_rows_member by blast
      from c have "(\<forall>c \<in> set (keys @ gs). m c = l c) \<and> row_key keys m = row_key keys l
              \<and> ((row_key keys l \<notin> row_key keys ` set (rows p) \<and> m g = Null)
                 \<or> (\<exists>r \<in> set (rows p). row_key keys r = row_key keys l \<and> m g = r g))"
      proof
        assume "matches keys p l = [] \<and> m = join_row keys T p l None"
        then show ?thesis by (simp add: jl jg jk matches_empty)
      next
        assume "\<exists>r \<in> set (matches keys p l). m = join_row keys T p l (Some r)"
        then obtain r where "r \<in> set (rows p)" "row_key keys r = row_key keys l"
          "m = join_row keys T p l (Some r)"
          by (auto simp: matches_member)
        then show ?thesis using jl jg jk by auto
      qed
      with l show ?thesis by blast
    next
      case right
      then obtain r where "r \<in> set (rows p)"
        "row_key keys r \<notin> row_key keys ` set (rows T)" "m = right_only_row keys T p r"
        unfolding right_only_rows_member by blast
      then show ?thesis using ol og ok by auto
    qed
  qed
  show "\<forall>l \<in> set (rows T). \<exists>m \<in> set (rows M). (\<forall>c \<in> set (keys @ gs). m c = l c)
           \<and> row_key keys m = row_key keys l"
  proof
    fix l assume l: "l \<in> set (rows T)"
    show "\<exists>m \<in> set (rows M). (\<forall>c \<in> set (keys @ gs). m c = l c)
           \<and> row_key keys m = row_key keys l"
    proof (cases "matches keys p l")
      case Nil
      with l have "join_row keys T p l None \<in> set (rows M)"
        unfolding rws by (auto simp: left_rows_member)
      then show ?thesis using jl jk by blast
    next
      case (Cons r rs)
      then have "r \<in> set (matches keys p l)" by simp
      with l have "join_row keys T p l (Some r) \<in> set (left_rows keys T p)"
        unfolding left_rows_member by blast
      then have "join_row keys T p l (Some r) \<in> set (rows M)"
        unfolding rws by simp
      then show ?thesis using jl jk by blast
    qed
  qed
  show "\<forall>r \<in> set (rows p). \<exists>m \<in> set (rows M). row_key keys m = row_key keys r \<and> m g = r g"
  proof
    fix r assume r: "r \<in> set (rows p)"
    show "\<exists>m \<in> set (rows M). row_key keys m = row_key keys r \<and> m g = r g"
    proof (cases "row_key keys r \<in> row_key keys ` set (rows T)")
      case True
      then obtain l where l: "l \<in> set (rows T)" and e: "row_key keys r = row_key keys l"
        by auto
      with r have "r \<in> set (matches keys p l)" by (simp add: matches_member)
      with l have "join_row keys T p l (Some r) \<in> set (rows M)"
        unfolding rws by (auto simp: left_rows_member)
      then show ?thesis using jg[of l "Some r"] jk[of l "Some r"] e by auto
    next
      case False
      with r have "right_only_row keys T p r \<in> set (rows M)"
        unfolding rws by (auto simp: right_only_rows_member)
      then show ?thesis using og ok by blast
    qed
  qed
  show "distinct (map (row_key keys) (rows M))"
    if dT: "distinct (map (row_key keys) (rows T))"
      and dp: "distinct (map (row_key keys) (rows p))"
  proof -
    have one: "map (row_key keys)
                 (if matches keys p l = [] then [join_row keys T p l None]
                  else map (\<lambda>r. join_row keys T p l (Some r)) (matches keys p l))
               = [row_key keys l]" for l
    proof -
      have "length (matches keys p l) \<le> 1"
        using distinct_filter_le_1[OF dp, of "row_key keys l"] by (simp add: matches_def)
      then show ?thesis
        by (cases "matches keys p l") (simp_all add: jk)
    qed
    have lk: "map (row_key keys) (left_rows keys T p) = map (row_key keys) (rows T)"
      unfolding left_rows_def map_concat map_map comp_def one
      by (induction "rows T") simp_all
    have rk: "map (row_key keys) (right_only_rows keys T p)
              = filter (\<lambda>k. k \<notin> row_key keys ` set (rows T)) (map (row_key keys) (rows p))"
      by (simp add: right_only_rows_def filter_map comp_def ok)
    show ?thesis
      unfolding rws map_append lk rk using dT dp by (auto simp: distinct_map_filter)
  qed
qed

lemma gap_shaped_prefix: "gap_shaped (xs @ ys) \<Longrightarrow> gap_shaped xs"
  by (auto simp: gap_shaped_def)

lemma gap_shaped_snoc:
  assumes "gap_shaped out" and "columns part = keys @ [g]" and "g \<notin> set keys"
    and "g \<notin> set (map gap_column out)"
  shows "gap_shaped (out @ [part])"
  using assms by (auto simp: gap_shaped_def gap_column_def)

lemma gap_shaped_columns:
  assumes "gap_shaped ps" and "p \<in> set ps"
  shows "columns p = keys @ [gap_column p]" and "gap_column p \<notin> set keys"
  using assms by (auto simp: gap_shaped_def gap_column_def)

lemma merged_of_single:
  assumes "columns p = keys @ [g]"
  shows "merged_of p [p]"
  by (auto simp: merged_of_def gap_column_def assms)

lemma merged_of_step:
  assumes inv: "merged_of T ps" and sh: "gap_shaped (ps @ [p])"
    and mg: "pd_merge HowOuter keys T p = Inr M"
  shows "merged_of M (ps @ [p])"
proof -
  let ?gs = "map gap_column ps"
  let ?g = "gap_column p"
  let ?K = "row_key keys"
  have cp: "columns p = keys @ [?g]" and g1: "?g \<notin> set keys"
    using gap_shaped_columns[OF sh, of p] by simp_all
  have g2: "?g \<notin> set ?gs" and dgs: "distinct ?gs"
    using sh by (auto simp: gap_shaped_def)
  have "set ?gs \<inter> set keys = {}"
    using gap_shaped_columns(2)[OF gap_shaped_prefix[OF sh]] by auto
  with dgs distinct_keys have dk: "distinct (keys @ ?gs)" by auto
  from inv have cT: "columns T = keys @ ?gs"
    and ia: "\<forall>q \<in> set ps. \<forall>r \<in> set (rows q). \<exists>m \<in> set (rows T).
           ?K m = ?K r \<and> m (gap_column q) = r (gap_column q)"
    and ib: "\<forall>m \<in> set (rows T). \<exists>q \<in> set ps. ?K m \<in> ?K ` set (rows q)"
    and ic: "\<forall>q \<in> set ps. \<forall>m \<in> set (rows T).
           ?K m \<notin> ?K ` set (rows q) \<longrightarrow> m (gap_column q) = Null"
    and ie: "(\<forall>q \<in> set ps. distinct (map ?K (rows q))) \<longrightarrow> distinct (map ?K (rows T))"
    unfolding merged_of_def by blast+
  note R = gap_merge_rows[OF cT cp g1 g2 dk mg]
  have c: "columns M = keys @ map gap_column (ps @ [p])"
    using R(1) by simp
  have a: "\<exists>m \<in> set (rows M). ?K m = ?K r \<and> m (gap_column q) = r (gap_column q)"
    if q: "q \<in> set (ps @ [p])" and r: "r \<in> set (rows q)" for q r
  proof (cases "q \<in> set ps")
    case True
    with ia r obtain t where t: "t \<in> set (rows T)" "?K t = ?K r"
      "t (gap_column q) = r (gap_column q)" by blast
    from R(3) t(1) obtain m where m: "m \<in> set (rows M)"
      "\<forall>c \<in> set (keys @ ?gs). m c = t c" "?K m = ?K t" by blast
    from True have "gap_column q \<in> set (keys @ ?gs)" by simp
    with m(2) have "m (gap_column q) = t (gap_column q)" by blast
    with m t show ?thesis by auto
  next
    case False
    with q have "q = p" by simp
    with R(4) r show ?thesis by blast
  qed
  have b: "\<exists>q \<in> set (ps @ [p]). ?K m \<in> ?K ` set (rows q)" if m: "m \<in> set (rows M)" for m
  proof -
    from R(2) m consider
        (left) l where "l \<in> set (rows T)" "?K m = ?K l"
      | (right) r where "r \<in> set (rows p)" "?K m = ?K r"
      by blast
    then show ?thesis
    proof cases
      case left
      with ib obtain q where "q \<in> set ps" "?K l \<in> ?K ` set (rows q)" by blast
      with left show ?thesis by auto
    next
      case right
      then show ?thesis by auto
    qed
  qed
  have n: "m (gap_column q) = Null"
    if q: "q \<in> set (ps @ [p])" and m: "m \<in> set (rows M)"
      and k: "?K m \<notin> ?K ` set (rows q)" for q m
  proof -
    from R(2) m consider
        (left) l where "l \<in> set (rows T)" "\<forall>c \<in> set (keys @ ?gs). m c = l c"
          "?K m = ?K l"
          "(?K l \<notin> ?K ` set (rows p) \<and> m ?g = Null)
           \<or> (\<exists>r \<in> set (rows p). ?K r = ?K l \<and> m ?g = r ?g)"
      | (right) r where "r \<in> set (rows p)" "?K m = ?K r" "\<forall>c \<in> set ?gs. m c = Null"
      by blast
    then show ?thesis
    proof cases
      case left
      show ?thesis
      proof (cases "q \<in> set ps")
        case True
        then have "gap_column q \<in> set (keys @ ?gs)" by simp
        with left(2) have "m (gap_column q) = l (gap_column q)" by blast
        moreover from ic True left(1) left(3) k have "l (gap_column q) = Null" by simp
        ultimately show ?thesis by simp
      next
        case False
        with q have qp: "q = p" by simp
        from left(4) show ?thesis
        proof
          assume "?K l \<notin> ?K ` set (rows p) \<and> m ?g = Null"
          then show ?thesis by (simp add: qp)
        next
          assume "\<exists>r \<in> set (rows p). ?K r = ?K l \<and> m ?g = r ?g"
          then obtain r where "r \<in> set (rows p)" "?K r = ?K m" using left(3) by auto
          then have "?K m \<in> ?K ` set (rows p)" by (metis image_eqI)
          with k qp show ?thesis by simp
        qed
      qed
    next
      case right
      show ?thesis
      proof (cases "q \<in> set ps")
        case True
        then have "gap_column q \<in> set ?gs" by simp
        with right(3) show ?thesis by blast
      next
        case False
        with q have qp: "q = p" by simp
        from right have "?K m \<in> ?K ` set (rows p)" by (metis image_eqI)
        with k qp show ?thesis by simp
      qed
    qed
  qed
  have e: "distinct (map ?K (rows M))"
    if "\<forall>q \<in> set (ps @ [p]). distinct (map ?K (rows q))"
  proof -
    from that ie have "distinct (map ?K (rows T))" and "distinct (map ?K (rows p))"
      by simp_all
    then show ?thesis by (rule R(5))
  qed
  show ?thesis
    unfolding merged_of_def using c a b n e by blast
qed

lemma merge_parts_merged_of:
  "merged_of T ps \<Longrightarrow> gap_shaped (ps @ todo) \<Longrightarrow>
     \<exists>res. merge_parts T todo = Inr res \<and> merged_of res (ps @ todo)"
proof (induction todo arbitrary: T ps)
  case Nil
  then show ?case by simp
next
  case (Cons p todo)
  have sh: "gap_shaped (ps @ [p])"
    using gap_shaped_prefix[of "ps @ [p]" todo] Cons.prems(2) by simp
  let ?gs = "map gap_column ps"
  have cT: "columns T = keys @ ?gs"
    using Cons.prems(1) by (simp add: merged_of_def)
  have cp: "columns p = keys @ [gap_column p]" and g1: "gap_column p \<notin> set keys"
    using gap_shaped_columns[OF sh, of p] by simp_all
  have g2: "gap_column p \<notin> set ?gs" and dgs: "distinct ?gs"
    using sh by (auto simp: gap_shaped_def)
  have "set ?gs \<inter> set keys = {}"
    using gap_shaped_columns(2)[OF gap_shaped_prefix[OF sh]] by auto
  with dgs distinct_keys have dk: "distinct (keys @ ?gs)" by auto
  from gap_merge_succeeds[OF cT cp g1 g2 dk] obtain M where
    mg: "pd_merge HowOuter keys T p = Inr M" ..
  have "merged_of M (ps @ [p])"
    by (rule merged_of_step[OF Cons.prems(1) sh mg])
  moreover have "gap_shaped ((ps @ [p]) @ todo)" using Cons.prems(2) by simp
  ultimately obtain res where "merge_parts M todo = Inr res"
    "merged_of res ((ps @ [p]) @ todo)"
    using Cons.IH by blast
  then show ?case using mg by (simp add: keys_def)
qed

lemma gap_name_not_key: "x @ ''_gap_fm'' \<notin> set keys"
proof
  assume "x @ ''_gap_fm'' \<in> set keys"
  then have "last (x @ ''_gap_fm'') \<in> last ` set keys" by (rule imageI)
  then show False by (simp add: keys_def)
qed

lemma long_gap_SomeD:
  "long_gap df name produced = Inr (Some part) \<Longrightarrow>
     columns part = keys @ [name @ ''_gap_fm''] \<and> name @ ''_gap_fm'' \<notin> set produced"
  by (auto simp: long_gap_def Let_def split: sum.splits if_splits list.splits)

lemma long_pass_shaped:
  "long_pass df names out produced = Inr (out', produced') \<Longrightarrow>
   produced = map gap_column out \<Longrightarrow> gap_shaped out \<Longrightarrow>
     produced' = map gap_column out' \<and> gap_shaped out'"
proof (induction names arbitrary: out produced)
  case Nil
  then show ?case by auto
next
  case (Cons name names)
  show ?case
  proof (cases "name \<in> set (columns df)")
    case False
    with Cons show ?thesis by simp
  next
    case True
    show ?thesis
    proof (cases "long_gap df name produced")
      case (Inl e)
      with True Cons.prems(1) show ?thesis by simp
    next
      case (Inr po)
      show ?thesis
      proof (cases po)
        case None
        with Inr True Cons show ?thesis by simp
      next
        case (Some part)
        with Inr have lg: "long_gap df name produced = Inr (Some part)" by simp
        note d = long_gap_SomeD[OF lg]
        have gc: "gap_column part = name @ ''_gap_fm''"
          using d by (simp add: gap_column_def)
        have sh: "gap_shaped (out @ [part])"
          using gap_shaped_snoc[OF Cons.prems(3) conjunct1[OF d] gap_name_not_key]
            d Cons.prems(2) by simp
        have "long_pass df names (out @ [part]) (produced @ [name @ ''_gap_fm''])
                = Inr (out', produced')"
          using Cons.prems(1) True lg by simp
        moreover have "produced @ [name @ ''_gap_fm''] = map gap_column (out @ [part])"
          using Cons.prems(2) gc by simp
        ultimately show ?thesis using Cons.IH sh by blast
      qed
    qed
  qed
qed

lemma gap_name_of_not_key: "gap_name_of c \<notin> set keys"
  unfolding gap_name_of_def Let_def by (rule gap_name_not_key)

lemma wide_part_columns:
  "columns (setitem_column (select_columns df keys) (gap_name_of c) gap)
     = keys @ [gap_name_of c]"
  using gap_name_of_not_key[of c] by (simp add: setitem_column_def select_columns_def)

lemma wide_pass_shaped:
  "wide_pass df mcs out produced = Inr (out', produced') \<Longrightarrow>
   produced = map gap_column out \<Longrightarrow> gap_shaped out \<Longrightarrow>
     produced' = map gap_column out' \<and> gap_shaped out'"
proof (induction mcs arbitrary: out produced)
  case Nil
  then show ?case by auto
next
  case (Cons c mcs)
  show ?case
  proof (cases "female_of c \<notin> set (columns df) \<or> gap_name_of c \<in> set produced")
    case True
    then have "wide_pass df mcs out produced = Inr (out', produced')"
      using Cons.prems(1) by (auto split: if_splits)
    then show ?thesis using Cons.IH Cons.prems(2,3) by blast
  next
    case False
    with Cons.prems(1) obtain gap where
      w: "wide_pass df mcs
            (out @ [setitem_column (select_columns df keys) (gap_name_of c) gap])
            (produced @ [gap_name_of c]) = Inr (out', produced')"
      by (auto simp: getitem_columns_def split: sum.splits if_splits)
    let ?part = "setitem_column (select_columns df keys) (gap_name_of c) gap"
    have cp: "columns ?part = keys @ [gap_name_of c]" by (rule wide_part_columns)
    then have gc: "gap_column ?part = gap_name_of c" by (simp add: gap_column_def)
    have sh: "gap_shaped (out @ [?part])"
      using gap_shaped_snoc[OF Cons.prems(3) cp gap_name_of_not_key] False Cons.prems(2)
      by simp
    have "produced @ [gap_name_of c] = map gap_column (out @ [?part])"
      using Cons.prems(2) gc by simp
    with w sh show ?thesis using Cons.IH by blast
  qed
qed

lemma gap_parts_shaped:
  assumes "gap_parts df = Inr parts"
  shows "gap_shaped parts"
proof -
  from assms obtain out produced produced' where
    l: "long_shape df = Inr (out, produced)"
    and w: "wide_pass df (male_cols df) out produced = Inr (parts, produced')"
    by (auto simp: gap_parts_def split: sum.splits prod.splits)
  have e: "gap_shaped []" by (simp add: gap_shaped_def)
  have "produced = map gap_column out \<and> gap_shaped out"
  proof (cases "''sex'' \<in> set (columns df)")
    case True
    with l have "long_pass df indicators [] [] = Inr (out, produced)"
      by (simp add: long_shape_def)
    from long_pass_shaped[OF this _ e] show ?thesis by simp
  next
    case False
    with l e show ?thesis by (simp add: long_shape_def)
  qed
  with wide_pass_shaped[OF w] show ?thesis by blast
qed

lemma row_key_row_of_zip:
  assumes "length k = length ks" and "distinct ks"
  shows "row_key ks (row_of (zip ks k @ extra)) = k"
proof (rule nth_equalityI)
  show "length (row_key ks (row_of (zip ks k @ extra))) = length k"
    using assms(1) by (simp add: row_key_def)
next
  fix i assume "i < length (row_key ks (row_of (zip ks k @ extra)))"
  then have i: "i < length ks" by (simp add: row_key_def)
  with assms have "map_of (zip ks k) (ks ! i) = Some (k ! i)"
    by (simp add: map_of_zip_nth)
  then have "row_of (zip ks k @ extra) (ks ! i) = k ! i"
    by (simp add: row_of_def map_add_def)
  with i show "row_key ks (row_of (zip ks k @ extra)) ! i = k ! i"
    by (simp add: row_key_def)
qed

lemma long_gap_distinct:
  assumes "long_gap df name produced = Inr (Some part)"
  shows "distinct (map (row_key keys) (rows part))"
proof -
  from assms obtain wide f m where pt: "pivot_table df name = Inr wide"
    and part: "rows part = map (\<lambda>k. row_of (zip keys k @
                  [(name @ ''_gap_fm'', cell_sub (pv_value wide k f) (pv_value wide k m))]))
                (pv_index wide)"
    by (auto simp: long_gap_def Let_def simp del: map_eq_conv
             split: sum.splits if_splits list.splits)
  from pt have idx: "pv_index wide = remdups (map fst (live_groups df name))"
    by (auto simp: pivot_table_def split: if_splits)
  have len: "length k = length keys" if "k \<in> set (pv_index wide)" for k
    using that unfolding idx by (auto simp: live_groups_def row_key_def)
  have "map (row_key keys) (rows part) = pv_index wide"
    unfolding part map_map comp_def
    by (rule map_idI) (simp add: row_key_row_of_zip[OF len distinct_keys])
  then show ?thesis by (simp add: idx)
qed

lemma long_pass_distinct:
  "long_pass df names out produced = Inr (out', produced') \<Longrightarrow>
   \<forall>p \<in> set out. distinct (map (row_key keys) (rows p)) \<Longrightarrow>
     \<forall>p \<in> set out'. distinct (map (row_key keys) (rows p))"
proof (induction names arbitrary: out produced)
  case Nil
  then show ?case by auto
next
  case (Cons name names)
  show ?case
  proof (cases "name \<in> set (columns df)")
    case False
    with Cons.prems have "long_pass df names out produced = Inr (out', produced')" by simp
    from Cons.IH[OF this Cons.prems(2)] show ?thesis .
  next
    case True
    show ?thesis
    proof (cases "long_gap df name produced")
      case (Inl e)
      with True Cons.prems show ?thesis by simp
    next
      case (Inr po)
      show ?thesis
      proof (cases po)
        case None
        with Inr True Cons.prems have
          "long_pass df names out produced = Inr (out', produced')" by simp
        from Cons.IH[OF this Cons.prems(2)] show ?thesis .
      next
        case (Some part)
        with Inr have lg: "long_gap df name produced = Inr (Some part)" by simp
        with True Cons.prems have
          "long_pass df names (out @ [part]) (produced @ [name @ ''_gap_fm''])
             = Inr (out', produced')" by simp
        moreover have "\<forall>p \<in> set (out @ [part]). distinct (map (row_key keys) (rows p))"
          using Cons.prems(2) long_gap_distinct[OF lg] by simp
        ultimately show ?thesis by (rule Cons.IH)
      qed
    qed
  qed
qed

lemma long_shape_distinct:
  assumes "long_shape df = Inr (out, produced)"
  shows "\<forall>p \<in> set out. distinct (map (row_key keys) (rows p))"
proof (cases "''sex'' \<in> set (columns df)")
  case True
  with assms have "long_pass df indicators [] [] = Inr (out, produced)"
    by (simp add: long_shape_def)
  from long_pass_distinct[OF this] show ?thesis by simp
next
  case False
  with assms show ?thesis by (simp add: long_shape_def)
qed

lemma wide_gap_table_keys:
  "map (row_key keys) (rows (wide_gap_table df c)) = map (row_key keys) (rows df)"
proof -
  have g: "gap_name_of c \<notin> set keys" by (rule gap_name_of_not_key)
  have "row_key keys ((\<lambda>x. if x \<in> set keys then r x else Null)(gap_name_of c := v))
          = row_key keys r" for r v
    unfolding row_key_def using g by (intro map_cong[OF refl]) auto
  then show ?thesis
    by (simp add: wide_gap_table_def setitem_column_def select_columns_def zip_map_map
          zip_same_conv_map comp_def)
qed

lemma wide_pass_emits:
  "wide_pass df mcs out produced = Inr (out', produced') \<Longrightarrow>
     set produced \<subseteq> set produced'
     \<and> (\<forall>c \<in> set mcs. female_of c \<in> set (columns df) \<longrightarrow> gap_name_of c \<in> set produced')
     \<and> (\<forall>p \<in> set out'. p \<in> set out
           \<or> (\<exists>c \<in> set mcs. female_of c \<in> set (columns df) \<and> p = wide_gap_table df c))"
proof (induction mcs arbitrary: out produced)
  case Nil
  then show ?case by auto
next
  case (Cons c mcs)
  show ?case
  proof (cases "female_of c \<notin> set (columns df) \<or> gap_name_of c \<in> set produced")
    case True
    then have "wide_pass df mcs out produced = Inr (out', produced')"
      using Cons.prems by (auto split: if_splits)
    from Cons.IH[OF this] True show ?thesis by auto
  next
    case False
    with Cons.prems have
      "wide_pass df mcs (out @ [wide_gap_table df c]) (produced @ [gap_name_of c])
         = Inr (out', produced')"
      by (auto simp: getitem_columns_def series_sub_def wide_gap_table_def
               split: sum.splits if_splits)
    from Cons.IH[OF this] False show ?thesis by auto
  qed
qed

lemma gender_gap_merged_of:
  assumes "gap_parts df = Inr parts" and "parts \<noteq> []"
  shows "\<exists>res. gender_gap df = Inr res \<and> merged_of res parts"
proof -
  from assms(2) obtain p ps where parts: "parts = p # ps" by (cases parts) auto
  have sh: "gap_shaped parts" by (rule gap_parts_shaped[OF assms(1)])
  then have "merged_of p [p]"
    using merged_of_single[of p "gap_column p"] gap_shaped_columns(1)[OF sh, of p] parts
    by simp
  moreover have "gap_shaped ([p] @ ps)" using sh parts by simp
  ultimately obtain res where r: "merge_parts p ps = Inr res" and m: "merged_of res ([p] @ ps)"
    using merge_parts_merged_of by blast
  have "gender_gap df = Inr res"
    using assms(1) r parts by (simp add: gender_gap_def)
  with m parts show ?thesis by simp
qed

text \<open>
  C5, as the code has it. When \<open>gender_gap\<close> has produced its gap tables (one or
  more), the merge succeeds and the result has the key columns and the gap column of
  every gap table. Every row of every gap table has a row in the result with its key and
  its gap, so the result covers the union of the keys and no table loses a row to
  another; every row of the result has a key of some gap table; a row whose key a gap
  table lacks has a missing value in the gap column of that table. A gap table of the
  long-shape pass has no key twice, and a gap table of the wide-shape pass has the keys
  of the rows of the input, one row for each; the result has exactly one row for each key
  when no gap table has a key twice, which is so when the input has no key twice or has
  no \<open>_male\<close>/\<open>_female\<close> pair.
\<close>

theorem gap_merge_coverage:
  assumes "gap_parts df = Inr parts" and "parts \<noteq> []"
  shows "\<exists>res. gender_gap df = Inr res
     \<and> (\<forall>p \<in> set parts. columns p = keys @ [gap_column p])
     \<and> columns res = keys @ map gap_column parts
     \<and> (\<forall>p \<in> set parts. \<forall>r \<in> set (rows p). \<exists>m \<in> set (rows res).
           row_key keys m = row_key keys r \<and> m (gap_column p) = r (gap_column p))
     \<and> (\<forall>m \<in> set (rows res). \<exists>p \<in> set parts. row_key keys m \<in> row_key keys ` set (rows p))
     \<and> (\<forall>p \<in> set parts. \<forall>m \<in> set (rows res).
           row_key keys m \<notin> row_key keys ` set (rows p) \<longrightarrow> m (gap_column p) = Null)
     \<and> (\<forall>p \<in> set parts. distinct (map (row_key keys) (rows p))
           \<or> map (row_key keys) (rows p) = map (row_key keys) (rows df))
     \<and> ((\<forall>p \<in> set parts. distinct (map (row_key keys) (rows p)))
          \<longrightarrow> distinct (map (row_key keys) (rows res)))
     \<and> (distinct (map (row_key keys) (rows df))
          \<or> \<not> list_ex (\<lambda>c. female_of c \<in> set (columns df)) (male_cols df)
          \<longrightarrow> distinct (map (row_key keys) (rows res)))"
proof -
  let ?K = "row_key keys"
  have sh: "gap_shaped parts" by (rule gap_parts_shaped[OF assms(1)])
  have cols: "\<forall>q \<in> set parts. columns q = keys @ [gap_column q]"
    using gap_shaped_columns(1)[OF sh] by blast
  from assms(1) obtain out produced produced' where
    l: "long_shape df = Inr (out, produced)"
    and w: "wide_pass df (male_cols df) out produced = Inr (parts, produced')"
    by (auto simp: gap_parts_def split: sum.splits prod.splits)
  note ld = long_shape_distinct[OF l]
  note e = wide_pass_emits[OF w]
  have origin: "p \<in> set out \<or> (\<exists>c \<in> set (male_cols df). female_of c \<in> set (columns df)
                   \<and> p = wide_gap_table df c)" if "p \<in> set parts" for p
    using e that by blast
  have f: "\<forall>p \<in> set parts. distinct (map ?K (rows p)) \<or> map ?K (rows p) = map ?K (rows df)"
  proof
    fix p assume "p \<in> set parts"
    from origin[OF this] show "distinct (map ?K (rows p)) \<or> map ?K (rows p) = map ?K (rows df)"
      using ld wide_gap_table_keys by auto
  qed
  have alld: "\<forall>p \<in> set parts. distinct (map ?K (rows p))"
    if "distinct (map ?K (rows df))
          \<or> \<not> list_ex (\<lambda>c. female_of c \<in> set (columns df)) (male_cols df)"
  proof
    fix p assume p: "p \<in> set parts"
    from that show "distinct (map ?K (rows p))"
    proof
      assume "distinct (map ?K (rows df))"
      with f p show ?thesis by auto
    next
      assume "\<not> list_ex (\<lambda>c. female_of c \<in> set (columns df)) (male_cols df)"
      with origin[OF p] have "p \<in> set out" by (auto simp: list_ex_iff)
      with ld show ?thesis by blast
    qed
  qed
  from gender_gap_merged_of[OF assms] obtain res where
    r: "gender_gap df = Inr res" and m: "merged_of res parts" by blast
  from m have d: "(\<forall>p \<in> set parts. distinct (map ?K (rows p))) \<longrightarrow> distinct (map ?K (rows res))"
    unfolding merged_of_def by blast
  with alld have g: "distinct (map ?K (rows df))
          \<or> \<not> list_ex (\<lambda>c. female_of c \<in> set (columns df)) (male_cols df)
          \<longrightarrow> distinct (map ?K (rows res))"
    by blast
  from m have rest: "columns res = keys @ map gap_column parts
     \<and> (\<forall>p \<in> set parts. \<forall>r \<in> set (rows p). \<exists>m \<in> set (rows res).
           ?K m = ?K r \<and> m (gap_column p) = r (gap_column p))
     \<and> (\<forall>m \<in> set (rows res). \<exists>p \<in> set parts. ?K m \<in> ?K ` set (rows p))
     \<and> (\<forall>p \<in> set parts. \<forall>m \<in> set (rows res).
           ?K m \<notin> ?K ` set (rows p) \<longrightarrow> m (gap_column p) = Null)"
    unfolding merged_of_def by blast
  show ?thesis
    apply (rule exI[of _ res])
    using r cols rest f d g by blast
qed

theorem gap_merge_coverage_witness:
  "\<exists>parts res. gap_parts long_example = Inr parts
     \<and> map gap_column parts = [''prevalence_total_gap_fm'', ''prevalence_anxiety_gap_fm'']
     \<and> gender_gap long_example = Inr res
     \<and> shown (Inr res) =
         Inr ([''country'', ''country_iso3'', ''year'',
               ''prevalence_total_gap_fm'', ''prevalence_anxiety_gap_fm''],
              [[Str ''X'', Str ''XXX'', Num 2019, Num 6, Null],
               [Str ''X'', Str ''XXX'', Num 2020, Num 7, Num 2],
               [Str ''X'', Str ''XXX'', Num 2021, Null, Num 3]])"
proof -
  have s: "shown (gender_gap long_example) =
         Inr ([''country'', ''country_iso3'', ''year'',
               ''prevalence_total_gap_fm'', ''prevalence_anxiety_gap_fm''],
              [[Str ''X'', Str ''XXX'', Num 2019, Num 6, Null],
               [Str ''X'', Str ''XXX'', Num 2020, Num 7, Num 2],
               [Str ''X'', Str ''XXX'', Num 2021, Null, Num 3]])"
    by code_simp
  then obtain parts where gp: "gap_parts long_example = Inr parts" and ne: "parts \<noteq> []"
    by (cases "gap_parts long_example")
       (auto simp: gender_gap_def shown_def split: list.splits)
  from gap_merge_coverage[OF gp ne] obtain res where
    r: "gender_gap long_example = Inr res"
    and c: "columns res = keys @ map gap_column parts"
    by blast
  from s r have "columns res = [''country'', ''country_iso3'', ''year'',
               ''prevalence_total_gap_fm'', ''prevalence_anxiety_gap_fm'']"
    by (simp add: shown_def)
  with c have "map gap_column parts
                 = [''prevalence_total_gap_fm'', ''prevalence_anxiety_gap_fm'']"
    by (simp add: keys_def)
  with gp r s show ?thesis by auto
qed

text \<open>
  C5, as stated, fails: an input with two pairs of columns and two rows of one key gives
  two gap tables that each have the key twice, and the merged result has four rows of
  that key, not one.
\<close>

theorem repeated_key_counterexample:
  "shown (gender_gap wide_repeat_example) =
     Inr ([''country'', ''country_iso3'', ''year'', ''dep_gap_fm'', ''anx_gap_fm''],
          [[Str ''X'', Str ''XXX'', Num 2020, Num 6, Num 1],
           [Str ''X'', Str ''XXX'', Num 2020, Num 6, Num 2],
           [Str ''X'', Str ''XXX'', Num 2020, Num 4, Num 1],
           [Str ''X'', Str ''XXX'', Num 2020, Num 4, Num 2]])"
  by code_simp

section \<open>The Gap Reconciler: the gap of the canonical pair\<close>

lemma long_pass_produced:
  "long_pass df names out produced = Inr (out', produced') \<Longrightarrow>
     set produced' \<subseteq> set produced \<union> (\<lambda>n. n @ ''_gap_fm'') ` set names"
proof (induction names arbitrary: out produced)
  case Nil
  then show ?case by auto
next
  case (Cons name names)
  show ?case
  proof (cases "name \<in> set (columns df)")
    case False
    with Cons.prems have "long_pass df names out produced = Inr (out', produced')" by simp
    from Cons.IH[OF this] show ?thesis by auto
  next
    case True
    show ?thesis
    proof (cases "long_gap df name produced")
      case (Inl e)
      with True Cons.prems show ?thesis by simp
    next
      case (Inr po)
      show ?thesis
      proof (cases po)
        case None
        with Inr True Cons.prems have
          "long_pass df names out produced = Inr (out', produced')" by simp
        from Cons.IH[OF this] show ?thesis by auto
      next
        case (Some part)
        with Inr True Cons.prems have
          "long_pass df names (out @ [part]) (produced @ [name @ ''_gap_fm''])
             = Inr (out', produced')" by simp
        from Cons.IH[OF this] show ?thesis by auto
      qed
    qed
  qed
qed

lemma long_shape_produced:
  assumes "long_shape df = Inr (out, produced)"
  shows "set produced \<subseteq> set (map (\<lambda>n. n @ ''_gap_fm'') indicators)"
proof (cases "''sex'' \<in> set (columns df)")
  case True
  with assms have "long_pass df indicators [] [] = Inr (out, produced)"
    by (simp add: long_shape_def)
  from long_pass_produced[OF this] show ?thesis by simp
next
  case False
  with assms show ?thesis by (simp add: long_shape_def)
qed

lemma gap_name_prevalence: "gap_name_of ''prevalence_male'' = ''prevalence_gap_fm''"
  by (simp add: gap_name_of_def py_endswith_def)

lemma wide_pass_append:
  "wide_pass df (xs @ ys) out produced =
     (case wide_pass df xs out produced of
        Inl e \<Rightarrow> Inl e
      | Inr (out1, produced1) \<Rightarrow> wide_pass df ys out1 produced1)"
  by (induction xs arbitrary: out produced) (simp_all split: sum.splits)

lemma wide_pass_grows:
  "wide_pass df mcs out produced = Inr (out', produced') \<Longrightarrow>
     set out \<subseteq> set out'
     \<and> set produced' \<subseteq> set produced
          \<union> gap_name_of ` {c \<in> set mcs. female_of c \<in> set (columns df)}"
proof (induction mcs arbitrary: out produced)
  case Nil
  then show ?case by auto
next
  case (Cons c mcs)
  show ?case
  proof (cases "female_of c \<notin> set (columns df) \<or> gap_name_of c \<in> set produced")
    case True
    then have "wide_pass df mcs out produced = Inr (out', produced')"
      using Cons.prems by (auto split: if_splits)
    from Cons.IH[OF this] show ?thesis by auto
  next
    case False
    with Cons.prems have
      "wide_pass df mcs (out @ [wide_gap_table df c]) (produced @ [gap_name_of c])
         = Inr (out', produced')"
      by (auto simp: getitem_columns_def series_sub_def wide_gap_table_def
               split: sum.splits if_splits)
    from Cons.IH[OF this] False show ?thesis by auto
  qed
qed

lemma wide_pass_first_of_name:
  assumes w: "wide_pass df (xs @ c # ys) out produced = Inr (out', produced')"
    and f: "female_of c \<in> set (columns df)"
    and n: "gap_name_of c \<notin> set produced"
    and x: "\<forall>c' \<in> set xs. female_of c' \<in> set (columns df) \<longrightarrow> gap_name_of c' \<noteq> gap_name_of c"
  shows "wide_gap_table df c \<in> set out'"
proof -
  from w obtain out1 produced1 where
    w1: "wide_pass df xs out produced = Inr (out1, produced1)"
    and w2: "wide_pass df (c # ys) out1 produced1 = Inr (out', produced')"
    by (auto simp: wide_pass_append split: sum.splits)
  have "gap_name_of c \<notin> set produced1"
  proof
    assume "gap_name_of c \<in> set produced1"
    with wide_pass_grows[OF w1] have
      "gap_name_of c \<in> set produced
         \<union> gap_name_of ` {c' \<in> set xs. female_of c' \<in> set (columns df)}"
      by blast
    with n have "gap_name_of c \<in> gap_name_of ` {c' \<in> set xs. female_of c' \<in> set (columns df)}"
      by simp
    then obtain c' where m: "c' \<in> {c' \<in> set xs. female_of c' \<in> set (columns df)}"
      and q: "gap_name_of c = gap_name_of c'"
      by (rule imageE)
    from m have "c' \<in> set xs" and "female_of c' \<in> set (columns df)" by simp_all
    with x have "gap_name_of c' \<noteq> gap_name_of c" by blast
    with q show False by simp
  qed
  with w2 f have
    "wide_pass df ys (out1 @ [wide_gap_table df c]) (produced1 @ [gap_name_of c])
       = Inr (out', produced')"
    by (auto simp: getitem_columns_def series_sub_def wide_gap_table_def
             split: sum.splits if_splits)
  from wide_pass_grows[OF this] show ?thesis by auto
qed

text \<open>
  C10, as the code has it. For a table that has the columns \<open>prevalence_male\<close> and
  \<open>prevalence_female\<close> and on which the two passes run through: the gap name of the
  pair is \<open>prevalence_gap_fm\<close>; the names that the long-shape pass has produced are
  among the three \<open>\<dots>_gap_fm\<close> names of the indicators and \<open>prevalence_gap_fm\<close> is not
  one of them, so that pass never suppresses the pair; the wide-shape pass appends a gap
  table of that name and the result of \<open>gender_gap\<close> has the column
  \<open>prevalence_gap_fm\<close>. That gap table is the one of this pair when no pair that stands
  before it among the \<open>_male\<close> columns has the same gap name (so also when no other
  pair has it at all).
\<close>

theorem prevalence_gap_not_suppressed:
  assumes "''prevalence_male'' \<in> set (columns df)"
    and "''prevalence_female'' \<in> set (columns df)"
    and "gap_parts df = Inr parts"
  shows "gap_name_of ''prevalence_male'' = ''prevalence_gap_fm''
     \<and> (\<exists>out produced. long_shape df = Inr (out, produced)
           \<and> set produced \<subseteq> set (map (\<lambda>n. n @ ''_gap_fm'') indicators)
           \<and> ''prevalence_gap_fm'' \<notin> set produced)
     \<and> (\<exists>c \<in> set (male_cols df). female_of c \<in> set (columns df)
           \<and> gap_name_of c = ''prevalence_gap_fm'' \<and> wide_gap_table df c \<in> set parts)
     \<and> (\<forall>xs ys. male_cols df = xs @ ''prevalence_male'' # ys
           \<and> (\<forall>c \<in> set xs. female_of c \<in> set (columns df)
                 \<longrightarrow> gap_name_of c \<noteq> ''prevalence_gap_fm'')
          \<longrightarrow> wide_gap_table df ''prevalence_male'' \<in> set parts)
     \<and> ((\<forall>c \<in> set (male_cols df). female_of c \<in> set (columns df)
             \<and> gap_name_of c = ''prevalence_gap_fm'' \<longrightarrow> c = ''prevalence_male'')
          \<longrightarrow> wide_gap_table df ''prevalence_male'' \<in> set parts)
     \<and> (\<exists>res. gender_gap df = Inr res \<and> ''prevalence_gap_fm'' \<in> set (columns res))"
proof -
  let ?g = "''prevalence_gap_fm''"
  from assms(3) obtain out produced produced' where
    l: "long_shape df = Inr (out, produced)"
    and w: "wide_pass df (male_cols df) out produced = Inr (parts, produced')"
    by (auto simp: gap_parts_def split: sum.splits prod.splits)
  have lp: "set produced \<subseteq> set (map (\<lambda>n. n @ ''_gap_fm'') indicators)"
    by (rule long_shape_produced[OF l])
  then have ng: "?g \<notin> set produced"
    by (auto simp: indicators_def)
  have po: "produced = map gap_column out \<and> gap_shaped out"
  proof (cases "''sex'' \<in> set (columns df)")
    case True
    with l have "long_pass df indicators [] [] = Inr (out, produced)"
      by (simp add: long_shape_def)
    from long_pass_shaped[OF this] show ?thesis by (simp add: gap_shaped_def)
  next
    case False
    with l show ?thesis by (simp add: long_shape_def gap_shaped_def)
  qed
  with wide_pass_shaped[OF w] have pp: "produced' = map gap_column parts" by blast
  note e = wide_pass_emits[OF w]
  have mc: "''prevalence_male'' \<in> set (male_cols df)"
    using assms(1) by (simp add: male_cols_def py_endswith_def)
  have fo: "female_of ''prevalence_male'' = ''prevalence_female''"
    by (simp add: female_of_def)
  from e mc fo assms(2) have "?g \<in> set produced'"
    using gap_name_prevalence by auto
  with pp obtain p where p: "p \<in> set parts" "gap_column p = ?g" by auto
  have "p \<notin> set out"
  proof
    assume "p \<in> set out"
    then have "gap_column p \<in> set (map gap_column out)" by simp
    with p(2) ng po show False by simp
  qed
  with e p(1) obtain c where c: "c \<in> set (male_cols df)" "female_of c \<in> set (columns df)"
    "p = wide_gap_table df c" by blast
  have "gap_column (wide_gap_table df c) = gap_name_of c"
    using wide_part_columns[of df c] by (simp add: wide_gap_table_def gap_column_def)
  with c(3) p(2) have gc: "gap_name_of c = ?g" by simp
  have w1: "\<exists>c \<in> set (male_cols df). female_of c \<in> set (columns df)
           \<and> gap_name_of c = ?g \<and> wide_gap_table df c \<in> set parts"
    using c gc p(1) by blast
  have w2: "wide_gap_table df ''prevalence_male'' \<in> set parts"
    if "\<forall>c \<in> set (male_cols df). female_of c \<in> set (columns df)
             \<and> gap_name_of c = ?g \<longrightarrow> c = ''prevalence_male''"
    using that c gc p(1) by blast
  have w4: "wide_gap_table df ''prevalence_male'' \<in> set parts"
    if s: "male_cols df = xs @ ''prevalence_male'' # ys"
      and x: "\<forall>c \<in> set xs. female_of c \<in> set (columns df) \<longrightarrow> gap_name_of c \<noteq> ?g"
    for xs ys
  proof (rule wide_pass_first_of_name[where xs = xs and ys = ys and out = out
        and produced = produced and produced' = produced'])
    show "wide_pass df (xs @ ''prevalence_male'' # ys) out produced = Inr (parts, produced')"
      using w s by simp
    show "female_of ''prevalence_male'' \<in> set (columns df)" using fo assms(2) by simp
    show "gap_name_of ''prevalence_male'' \<notin> set produced"
      using ng gap_name_prevalence by simp
    show "\<forall>c' \<in> set xs. female_of c' \<in> set (columns df)
            \<longrightarrow> gap_name_of c' \<noteq> gap_name_of ''prevalence_male''"
      using x gap_name_prevalence by simp
  qed
  from p(1) have "parts \<noteq> []" by auto
  from gender_gap_merged_of[OF assms(3) this] obtain res where
    r: "gender_gap df = Inr res" and m: "merged_of res parts" by blast
  from m have "columns res = keys @ map gap_column parts" by (simp add: merged_of_def)
  with p have "?g \<in> set (columns res)" by force
  with r have w3: "\<exists>res. gender_gap df = Inr res \<and> ?g \<in> set (columns res)" by blast
  show ?thesis using gap_name_prevalence l lp ng w1 w2 w3 w4 by blast
qed

theorem prevalence_gap_not_suppressed_witness:
  "\<exists>parts. gap_parts mixed_example = Inr parts
     \<and> wide_gap_table mixed_example ''prevalence_male'' \<in> set parts
     \<and> shown (gender_gap mixed_example) =
         Inr ([''country'', ''country_iso3'', ''year'',
               ''prevalence_total_gap_fm'', ''prevalence_gap_fm''],
              [[Str ''X'', Str ''XXX'', Num 2020, Num 6, Num 5],
               [Str ''X'', Str ''XXX'', Num 2020, Num 6, Num 5]])"
proof -
  have s: "shown (gender_gap mixed_example) =
         Inr ([''country'', ''country_iso3'', ''year'',
               ''prevalence_total_gap_fm'', ''prevalence_gap_fm''],
              [[Str ''X'', Str ''XXX'', Num 2020, Num 6, Num 5],
               [Str ''X'', Str ''XXX'', Num 2020, Num 6, Num 5]])"
    by code_simp
  then obtain parts where gp: "gap_parts mixed_example = Inr parts"
    by (cases "gap_parts mixed_example") (auto simp: gender_gap_def shown_def)
  have c: "columns mixed_example = [''country'', ''country_iso3'', ''year'', ''sex'',
             ''prevalence_total'', ''prevalence_male'', ''prevalence_female'']"
    by (simp add: mixed_example_def frame_def)
  have m: "''prevalence_male'' \<in> set (columns mixed_example)"
    and f: "''prevalence_female'' \<in> set (columns mixed_example)"
    by (simp_all add: c)
  have mcs: "male_cols mixed_example = [''prevalence_male'']"
    by (simp add: male_cols_def c py_endswith_def)
  have u: "\<forall>c \<in> set (male_cols mixed_example). female_of c \<in> set (columns mixed_example)
             \<and> gap_name_of c = ''prevalence_gap_fm'' \<longrightarrow> c = ''prevalence_male''"
    by (simp add: mcs)
  from prevalence_gap_not_suppressed[OF m f gp] u
  have "wide_gap_table mixed_example ''prevalence_male'' \<in> set parts" by blast
  with gp s show ?thesis by blast
qed

text \<open>
  C10, as stated, fails: the pair \<open>prevalence__male\<close>/\<open>prevalence__female\<close> has the
  same gap name (the trailing underscore of its base is stripped) and stands first, so
  the produced set suppresses the gap of the canonical pair: the only gap column holds
  2 - 1 = 1, not 20 - 10 = 10.
\<close>

theorem earlier_pair_counterexample:
  "columns underscore_example
     = [''country'', ''country_iso3'', ''year'', ''prevalence__male'', ''prevalence__female'',
        ''prevalence_male'', ''prevalence_female'']
   \<and> gap_name_of ''prevalence__male'' = ''prevalence_gap_fm''
   \<and> map (\<lambda>r. cell_sub (r ''prevalence_female'') (r ''prevalence_male''))
        (rows underscore_example) = [Num 10]
   \<and> shown (gender_gap underscore_example) =
       Inr ([''country'', ''country_iso3'', ''year'', ''prevalence_gap_fm''],
            [[Str ''X'', Str ''XXX'', Num 2020, Num 1]])"
  by code_simp

end
